theory Spec2Isabelle
  imports Main "HOL-Library.Word" "HOL-Library.Multiset"
begin

section \<open>Data model of \<^verbatim>\<open>src/mpsc.c\<close>\<close>

text \<open>
  The channel of \<^verbatim>\<open>src/mpsc.c\<close> is a struct guarded by one mutex. Every function
  below is the translation of one critical section of the source: the code that runs
  between taking the mutex (or returning from \<^verbatim>\<open>pthread_cond_wait\<close>, which takes
  it again) and releasing it (or entering \<^verbatim>\<open>pthread_cond_wait\<close>, which releases it).
  A function takes the struct, returns the updated struct, the value the C function
  returns, and the list of library calls it made that other threads or the application
  can observe (lock, unlock, signal, callbacks). A call to \<^verbatim>\<open>abort()\<close> is the value
  \<open>Inl\<close> of the reason.

  \<^verbatim>\<open>size_t\<close> fields are natural numbers: every counter of the struct is bounded by
  \<^verbatim>\<open>n_max_producers\<close>, and \<^verbatim>\<open>n\<close> by \<^verbatim>\<open>buffer_size\<close>, whose arrays were allocated, so
  no addition wraps.
  \<^verbatim>\<open>next_waiting_producer_id\<close> is a \<^verbatim>\<open>ssize_t\<close> that holds \<open>-1\<close> or a producer
  index; it is an integer here and the cast \<^verbatim>\<open>(ssize_t)id\<close> is \<open>int\<close>.
\<close>

type_synonym byte = "8 word"

text \<open>The values of \<^verbatim>\<open>errno\<close> and of the return codes of the pthread calls that the
  source tells apart; \<open>EOTHER\<close> is any other value. A return code is \<open>None\<close> for 0.\<close>

datatype errno_t = ENOMEM | EAGAIN | EOTHER

type_synonym reason_code = "errno_t option"

text \<open>What \<^verbatim>\<open>malloc\<close> did: a fresh address, or \<^verbatim>\<open>NULL\<close> with the value \<^verbatim>\<open>errno\<close>
  has after the call.\<close>

datatype malloc_result = Malloc_Ptr nat | Malloc_Null errno_t

text \<open>The reasons for which the source calls \<^verbatim>\<open>abort()\<close>.\<close>

datatype fatal =
    Fatal_Send_Size
  | Fatal_Producer_Not_Found
  | Fatal_Wait_Queue_Full
  | Fatal_Empty_Queue
  | Fatal_Malloc
  | Fatal_Cond_Init
  | Fatal_Mutex_Init
  | Fatal_Thread_Create
  | Fatal_Errno
  | Fatal_Join_Thread
  | Fatal_Join_Twice
  | Fatal_Join_No_Producer
  | Fatal_No_Consumer_Callback
  | Fatal_No_Consumer_Error_Callback
  | Fatal_No_Producers_Allowed

datatype cond_var = Main_CV | Producer_CV nat

text \<open>Observable calls. \<open>Ev_Callback data n closed\<close> is a call of the consumer callback;
  \<open>data = None\<close> is the \<^verbatim>\<open>NULL\<close> pointer.\<close>

datatype event =
    Ev_Lock
  | Ev_Unlock
  | Ev_Signal cond_var
  | Ev_Wait cond_var
  | Ev_Callback "byte list option" nat bool
  | Ev_Error_Callback
  | Ev_Malloc nat
  | Ev_Free nat
  | Ev_Cond_Init cond_var
  | Ev_Cond_Destroy cond_var
  | Ev_Mutex_Init
  | Ev_Mutex_Destroy
  | Ev_Thread_Create

text \<open>\<^verbatim>\<open>struct mpsc_producer_s\<close>. The back pointer \<^verbatim>\<open>mpsc\<close> is left out (one channel
  is modelled); the field \<^verbatim>\<open>done\<close> is \<open>done_flag\<close> (\<open>done\<close> is a keyword). Callbacks and
  contexts are opaque pointers, numbers here.\<close>

record mpsc_producer_s =
  application_context :: nat
  done_flag :: bool
  callback :: nat

text \<open>\<^verbatim>\<open>struct mpsc_s\<close>. The field \<^verbatim>\<open>n\<close> is \<open>msg_n\<close>. The mutex, the condition
  variables and the thread handles carry no data of their own; the calls on them are
  events. A producer handle \<^verbatim>\<open>mpsc_producer_t *\<close> points into the array
  \<^verbatim>\<open>producers\<close>, so it is the index of its element.\<close>

record mpsc_s =
  buffer_size :: nat
  n_max_producers :: nat
  buffer :: "byte list"
  msg_n :: nat
  pending_message :: bool
  joined :: bool
  closed :: bool
  n_producers_closed :: nat
  error_handling_enabled :: bool
  create_and_join_thread_safety_disabled :: bool
  parent_thread_id :: nat
  n_producers_waiting :: nat
  next_waiting_producer_id :: int
  consumer_callback :: "nat option"
  consumer_error_callback :: "nat option"
  producers :: "mpsc_producer_s list"
  producer_count :: nat
  producer_waiting_ids_queue :: "nat list"

text \<open>The wait queue proper: the first \<^verbatim>\<open>n_producers_waiting\<close> cells of the array.\<close>

definition wait_queue :: "mpsc_s \<Rightarrow> nat list" where
  "wait_queue s = take (n_producers_waiting s) (producer_waiting_ids_queue s)"

type_synonym 'r step = "fatal + ('r \<times> mpsc_s \<times> event list)"

section \<open>Wrappers of the C library\<close>

text \<open>The wrappers take the value of \<^verbatim>\<open>errno\<close> before the call and return their
  result with the value of \<^verbatim>\<open>errno\<close> after it. \<^verbatim>\<open>my_malloc\<close> returns the pointer,
  \<open>None\<close> for a reported \<^verbatim>\<open>NULL\<close>.\<close>

definition my_malloc :: "malloc_result \<Rightarrow> bool \<Rightarrow> errno_t \<Rightarrow> fatal + (nat option \<times> errno_t)" where
  "my_malloc r handle_errors errno =
     (case r of
        Malloc_Ptr a \<Rightarrow> Inr (Some a, errno)
      | Malloc_Null e \<Rightarrow>
          if handle_errors \<and> e = ENOMEM then Inr (None, e) else Inl Fatal_Malloc)"

definition my_mutex_init :: "reason_code \<Rightarrow> bool \<Rightarrow> errno_t \<Rightarrow> fatal + (bool \<times> errno_t)" where
  "my_mutex_init reason_code handle_errors errno =
     (case reason_code of
        None \<Rightarrow> Inr (True, errno)
      | Some e \<Rightarrow>
          if handle_errors \<and> e = ENOMEM then Inr (False, e) else Inl Fatal_Mutex_Init)"

definition my_condition_variable_init ::
  "reason_code \<Rightarrow> bool \<Rightarrow> errno_t \<Rightarrow> fatal + (bool \<times> errno_t)" where
  "my_condition_variable_init reason_code handle_errors errno =
     (case reason_code of
        None \<Rightarrow> Inr (True, errno)
      | Some e \<Rightarrow>
          if handle_errors \<and> (e = ENOMEM \<or> e = EAGAIN) then Inr (False, e)
          else Inl Fatal_Cond_Init)"

definition my_thread_create :: "reason_code \<Rightarrow> bool \<Rightarrow> errno_t \<Rightarrow> fatal + (bool \<times> errno_t)" where
  "my_thread_create reason_code handle_errors errno =
     (case reason_code of
        None \<Rightarrow> Inr (True, errno)
      | Some e \<Rightarrow>
          if handle_errors \<and> e = EAGAIN then Inr (False, e) else Inl Fatal_Thread_Create)"

text \<open>\<^verbatim>\<open>memcpy(dst, src, k)\<close> on byte arrays.\<close>

definition memcpy :: "byte list \<Rightarrow> byte list \<Rightarrow> nat \<Rightarrow> byte list" where
  "memcpy dst src k = take k src @ drop k dst"

section \<open>Producer registration\<close>

datatype mpsc_register_producer_error_t =
    MPSC_REGISTER_PRODUCER_ERROR_NONE
  | MPSC_REGISTER_PRODUCER_ERROR_CLOSED
  | MPSC_REGISTER_PRODUCER_ERROR_N_MAX_PRODUCERS_REACHED
  | MPSC_REGISTER_PRODUCER_ERROR_EAGAIN

text \<open>\<^verbatim>\<open>mpsc_register_producer\<close>; \<open>rc\<close> is what \<^verbatim>\<open>pthread_create\<close> returns if it is
  called. The write to \<^verbatim>\<open>producers[i]\<close> is in range when
  \<open>producer_count < n_max_producers\<close>.\<close>

definition mpsc_register_producer ::
  "mpsc_s \<Rightarrow> reason_code \<Rightarrow> nat \<Rightarrow> nat \<Rightarrow> mpsc_register_producer_error_t step" where
  "mpsc_register_producer self rc cb context =
     (if n_max_producers self = producer_count self then
        Inr (MPSC_REGISTER_PRODUCER_ERROR_N_MAX_PRODUCERS_REACHED, self, [Ev_Lock, Ev_Unlock])
      else if closed self then
        Inr (MPSC_REGISTER_PRODUCER_ERROR_CLOSED, self, [Ev_Lock, Ev_Unlock])
      else
        let i = producer_count self;
            self1 = self\<lparr>producers := (producers self)
                      [i := \<lparr>application_context = context, done_flag = False, callback = cb\<rparr>]\<rparr>
        in case my_thread_create rc (error_handling_enabled self1) EOTHER of
             Inl f \<Rightarrow> Inl f
           | Inr (False, _) \<Rightarrow>
               Inr (MPSC_REGISTER_PRODUCER_ERROR_EAGAIN, self1, [Ev_Lock, Ev_Unlock])
           | Inr (True, _) \<Rightarrow>
               Inr (MPSC_REGISTER_PRODUCER_ERROR_NONE,
                    self1\<lparr>producer_count := producer_count self1 + 1\<rparr>,
                    [Ev_Lock, Ev_Thread_Create, Ev_Unlock]))"

text \<open>The two aliases call \<^verbatim>\<open>mpsc_register_producer\<close> on the channel of the handle.\<close>

definition mpsc_consumer_register_producer ::
  "mpsc_s \<Rightarrow> reason_code \<Rightarrow> nat \<Rightarrow> nat \<Rightarrow> mpsc_register_producer_error_t step" where
  "mpsc_consumer_register_producer self rc cb context = mpsc_register_producer self rc cb context"

definition mpsc_producer_register_producer ::
  "mpsc_s \<Rightarrow> reason_code \<Rightarrow> nat \<Rightarrow> nat \<Rightarrow> mpsc_register_producer_error_t step" where
  "mpsc_producer_register_producer self rc cb context = mpsc_register_producer self rc cb context"

section \<open>Consumer close and producer ping\<close>

definition mpsc_consumer_close :: "mpsc_s \<Rightarrow> mpsc_s \<times> event list" where
  "mpsc_consumer_close self =
     (self\<lparr>closed := True\<rparr>,
      [Ev_Lock, Ev_Signal Main_CV]
      @ map (\<lambda>i. Ev_Signal (Producer_CV (producer_waiting_ids_queue self ! i)))
            [0..<n_producers_waiting self]
      @ [Ev_Unlock])"

definition mpsc_producer_ping :: "mpsc_s \<Rightarrow> bool \<times> event list" where
  "mpsc_producer_ping self = (\<not> closed self, [Ev_Lock, Ev_Unlock])"

section \<open>The wait queue\<close>

text \<open>\<^verbatim>\<open>mpsc_producer_subscribe_to_wait_queue\<close>: the linear search for the handle
  in the array, the two fatal checks, the write at the tail.\<close>

definition mpsc_producer_subscribe_to_wait_queue :: "mpsc_s \<Rightarrow> nat \<Rightarrow> fatal + (nat \<times> mpsc_s)" where
  "mpsc_producer_subscribe_to_wait_queue s self =
     (case find (\<lambda>i. i = self) [0..<n_max_producers s] of
        None \<Rightarrow> Inl Fatal_Producer_Not_Found
      | Some ident \<Rightarrow>
          if n_producers_waiting s = n_max_producers s then Inl Fatal_Wait_Queue_Full
          else Inr (ident,
                 s\<lparr>producer_waiting_ids_queue :=
                      (producer_waiting_ids_queue s)[n_producers_waiting s := ident],
                   n_producers_waiting := n_producers_waiting s + 1\<rparr>))"

text \<open>The loop of \<^verbatim>\<open>mpsc_shift_producer_wait_queue\<close>, from index \<open>i\<close> up to \<open>m\<close>
  (\<^verbatim>\<open>n_producers_waiting - 1\<close>).\<close>

function shift_loop :: "nat \<Rightarrow> nat \<Rightarrow> nat list \<Rightarrow> nat list" where
  "shift_loop i m q = (if i < m then shift_loop (i + 1) m (q[i := q ! (i + 1)]) else q)"
  by pat_completeness auto
termination
  by (relation "measure (\<lambda>(i, m, q). m - i)") auto

declare shift_loop.simps [simp del]

definition mpsc_shift_producer_wait_queue :: "mpsc_s \<Rightarrow> fatal + mpsc_s" where
  "mpsc_shift_producer_wait_queue self =
     (if n_producers_waiting self = 0 then Inl Fatal_Empty_Queue
      else Inr (self\<lparr>producer_waiting_ids_queue :=
                       shift_loop 0 (n_producers_waiting self - 1) (producer_waiting_ids_queue self),
                    n_producers_waiting := n_producers_waiting self - 1,
                    next_waiting_producer_id := - 1\<rparr>))"

section \<open>Sending\<close>

text \<open>How a critical section of \<^verbatim>\<open>mpsc_producer_send\<close> ends: the call returns, or the
  thread blocks in \<^verbatim>\<open>pthread_cond_wait\<close> on its own condition variable.\<close>

datatype send_outcome = Send_Return bool | Send_Wait nat

text \<open>Lines 335 to 343: the copy into the slot, the flag, the signal.\<close>

definition send_deposit :: "mpsc_s \<Rightarrow> byte list \<Rightarrow> nat \<Rightarrow> event list \<Rightarrow> send_outcome step" where
  "send_deposit s data k evs =
     Inr (Send_Return True,
          s\<lparr>buffer := (if k > 0 then memcpy (buffer s) data k else buffer s),
            msg_n := k,
            pending_message := True\<rparr>,
          evs @ [Ev_Signal Main_CV, Ev_Unlock])"

text \<open>The while loop of the waiting branch, entered with the mutex held: at the first
  test after subscribing, and again each time \<^verbatim>\<open>pthread_cond_wait\<close> returns. The state
  it is given is the channel as the thread finds it then.\<close>

definition mpsc_producer_send_resume ::
  "mpsc_s \<Rightarrow> nat \<Rightarrow> byte list \<Rightarrow> nat \<Rightarrow> event list \<Rightarrow> send_outcome step" where
  "mpsc_producer_send_resume s ident data k evs =
     (if \<not> closed s \<and> next_waiting_producer_id s \<noteq> int ident then
        Inr (Send_Wait ident, s, evs @ [Ev_Wait (Producer_CV ident)])
      else if closed s then
        Inr (Send_Return False, s, evs @ [Ev_Unlock])
      else
        case mpsc_shift_producer_wait_queue s of
          Inl f \<Rightarrow> Inl f
        | Inr s' \<Rightarrow> send_deposit s' data k evs)"

text \<open>\<^verbatim>\<open>mpsc_producer_send\<close> from its entry to its first return or wait.\<close>

definition mpsc_producer_send :: "mpsc_s \<Rightarrow> nat \<Rightarrow> byte list \<Rightarrow> nat \<Rightarrow> send_outcome step" where
  "mpsc_producer_send s self data k =
     (if k > buffer_size s then Inl Fatal_Send_Size
      else if closed s then Inr (Send_Return False, s, [Ev_Lock, Ev_Unlock])
      else if pending_message s \<or> next_waiting_producer_id s \<noteq> - 1 then
        case mpsc_producer_subscribe_to_wait_queue s self of
          Inl f \<Rightarrow> Inl f
        | Inr (ident, s') \<Rightarrow> mpsc_producer_send_resume s' ident data k [Ev_Lock]
      else send_deposit s data k [Ev_Lock])"

definition mpsc_producer_send_empty :: "mpsc_s \<Rightarrow> nat \<Rightarrow> send_outcome step" where
  "mpsc_producer_send_empty s self = mpsc_producer_send s self [] 0"

section \<open>End of a producer task\<close>

definition mpsc_producer_done :: "mpsc_s \<Rightarrow> nat \<Rightarrow> mpsc_s \<times> event list" where
  "mpsc_producer_done s self =
     (if \<not> done_flag (producers s ! self) then
        let s1 = s\<lparr>producers := (producers s)[self := (producers s ! self)\<lparr>done_flag := True\<rparr>],
                   n_producers_closed := n_producers_closed s + 1\<rparr>
        in if n_producers_closed s1 = producer_count s1 \<and> joined s1 then
             (s1\<lparr>closed := True\<rparr>, [Ev_Lock, Ev_Signal Main_CV, Ev_Unlock])
           else (s1, [Ev_Lock, Ev_Unlock])
      else (s, [Ev_Lock, Ev_Unlock]))"

section \<open>The consumer thread\<close>

text \<open>How one pass through the body of the \<^verbatim>\<open>while (true)\<close> loop of
  \<^verbatim>\<open>my_consumer_thread_callback\<close> ends: the thread blocks on the main condition
  variable, the loop goes round again (\<^verbatim>\<open>continue\<close>, or the end of the body), or the
  loop breaks and the thread makes the last call of the callback and returns.\<close>

datatype consumer_outcome = Consumer_Wait | Consumer_Continue | Consumer_Exit

text \<open>Lines 611 to 621: the slot is released, the head of the wait queue is elected,
  the mutex is released and the callback is called.\<close>

definition consumer_deliver ::
  "mpsc_s \<Rightarrow> byte list option \<Rightarrow> nat \<Rightarrow> event list \<Rightarrow> consumer_outcome step" where
  "consumer_deliver mpsc buf k evs =
     (let s1 = mpsc\<lparr>msg_n := 0, pending_message := False\<rparr>
      in if n_producers_waiting s1 > 0 \<and> \<not> closed s1 then
           let ident = producer_waiting_ids_queue s1 ! 0
           in Inr (Consumer_Continue,
                   s1\<lparr>next_waiting_producer_id := int ident\<rparr>,
                   evs @ [Ev_Signal (Producer_CV ident), Ev_Unlock, Ev_Callback buf k False])
         else Inr (Consumer_Continue, s1, evs @ [Ev_Unlock, Ev_Callback buf k False]))"

text \<open>One pass of the loop; \<open>m\<close> is what \<^verbatim>\<open>malloc\<close> does if it is called.\<close>

definition my_consumer_thread_callback :: "mpsc_s \<Rightarrow> malloc_result \<Rightarrow> consumer_outcome step" where
  "my_consumer_thread_callback mpsc m =
     (if \<not> pending_message mpsc \<and> \<not> closed mpsc then
        Inr (Consumer_Wait, mpsc, [Ev_Lock, Ev_Wait Main_CV])
      else if closed mpsc \<and> \<not> pending_message mpsc then
        Inr (Consumer_Exit, mpsc, [Ev_Lock, Ev_Unlock, Ev_Callback None 0 True])
      else
        let k = msg_n mpsc
        in if k > 0 then
             case my_malloc m (error_handling_enabled mpsc) EOTHER of
               Inl f \<Rightarrow> Inl f
             | Inr (None, _) \<Rightarrow>
                 Inr (Consumer_Continue,
                      mpsc\<lparr>msg_n := 0, pending_message := False\<rparr>,
                      [Ev_Lock, Ev_Unlock, Ev_Error_Callback])
             | Inr (Some a, _) \<Rightarrow>
                 consumer_deliver mpsc (Some (memcpy (replicate k 0) (buffer mpsc) k)) k
                   [Ev_Lock, Ev_Malloc a]
           else consumer_deliver mpsc None k [Ev_Lock])"

text \<open>Whether the mutex is held just before the \<open>i\<close>-th call of a critical section that
  starts with the mutex free.\<close>

fun lock_held_after :: "bool \<Rightarrow> event list \<Rightarrow> bool" where
  "lock_held_after h [] = h"
| "lock_held_after h (Ev_Lock # evs) = lock_held_after True evs"
| "lock_held_after h (Ev_Unlock # evs) = lock_held_after False evs"
| "lock_held_after h (Ev_Wait c # evs) = lock_held_after False evs"
| "lock_held_after h (e # evs) = lock_held_after h evs"

definition lock_held_at :: "event list \<Rightarrow> nat \<Rightarrow> bool" where
  "lock_held_at evs i = lock_held_after False (take i evs)"

section \<open>Joining\<close>

text \<open>\<^verbatim>\<open>mpsc_join\<close> up to the release of the mutex before the consumer thread is
  joined (lines 186 to 221), and the second critical section (lines 223 to 225), which
  runs once the consumer thread has returned.\<close>

definition mpsc_join_enter :: "mpsc_s \<Rightarrow> nat \<Rightarrow> fatal + (mpsc_s \<times> event list)" where
  "mpsc_join_enter self current_thread_id =
     (if \<not> create_and_join_thread_safety_disabled self
         \<and> current_thread_id \<noteq> parent_thread_id self then Inl Fatal_Join_Thread
      else if joined self then Inl Fatal_Join_Twice
      else
        let s1 = self\<lparr>joined := True\<rparr>
        in if producer_count s1 = 0 then Inl Fatal_Join_No_Producer
           else if producer_count s1 = n_producers_closed s1 then
             Inr (s1\<lparr>closed := True\<rparr>, [Ev_Lock, Ev_Signal Main_CV, Ev_Unlock])
           else Inr (s1, [Ev_Lock, Ev_Unlock]))"

definition mpsc_join_close :: "mpsc_s \<Rightarrow> mpsc_s \<times> event list" where
  "mpsc_join_close self = (self\<lparr>closed := True\<rparr>, [Ev_Lock, Ev_Unlock])"

section \<open>Construction\<close>

record mpsc_create_params_t =
  params_buffer_size :: nat
  params_n_max_producers :: nat
  params_consumer_callback :: "nat option"
  params_consumer_error_callback :: "nat option"
  params_error_handling_enabled :: bool
  params_create_and_join_thread_safety_disabled :: bool

text \<open>\<^verbatim>\<open>mpsc_create_params_validate\<close>: the reason of the abort, if any.\<close>

definition mpsc_create_params_validate :: "mpsc_create_params_t \<Rightarrow> fatal option" where
  "mpsc_create_params_validate params =
     (if params_consumer_callback params = None then Some Fatal_No_Consumer_Callback
      else if params_error_handling_enabled params
              \<and> params_consumer_error_callback params = None
        then Some Fatal_No_Consumer_Error_Callback
      else if params_n_max_producers params = 0 then Some Fatal_No_Producers_Allowed
      else None)"

text \<open>What the surroundings of a call of \<^verbatim>\<open>mpsc_create\<close> decide: the platform (the
  width of \<^verbatim>\<open>size_t\<close> and the sizes of the five types whose \<^verbatim>\<open>sizeof\<close> the function
  takes), the result of every \<^verbatim>\<open>malloc\<close> for the size it is asked, the return code of
  every pthread call, the value of \<^verbatim>\<open>errno\<close> at entry, and what the memory that
  \<^verbatim>\<open>malloc\<close> returns holds before it is written (the four pointer fields of the struct
  that are read by the failure handler, and the cells of the three arrays that the
  channel reads later).\<close>

record create_env =
  env_errno :: errno_t
  env_thread_self :: nat
  env_size_t_bits :: nat
  env_sizeof_mpsc_t :: nat
  env_sizeof_pthread_t :: nat
  env_sizeof_mpsc_producer_t :: nat
  env_sizeof_pthread_cond_t :: nat
  env_sizeof_size_t :: nat
  env_malloc_self :: "nat \<Rightarrow> malloc_result"
  env_malloc_buffer :: "nat \<Rightarrow> malloc_result"
  env_malloc_producer_thread_ids :: "nat \<Rightarrow> malloc_result"
  env_malloc_producers :: "nat \<Rightarrow> malloc_result"
  env_malloc_producer_condition_variables :: "nat \<Rightarrow> malloc_result"
  env_malloc_producer_waiting_ids_queue :: "nat \<Rightarrow> malloc_result"
  env_cond_init_main :: reason_code
  env_cond_init_producer :: "nat \<Rightarrow> reason_code"
  env_mutex_init :: reason_code
  env_thread_create :: reason_code
  env_uninit_producer_thread_ids :: "nat option"
  env_uninit_producers :: "nat option"
  env_uninit_producer_condition_variables :: "nat option"
  env_uninit_producer_waiting_ids_queue :: "nat option"
  env_uninit_byte :: "nat \<Rightarrow> byte"
  env_uninit_producer :: "nat \<Rightarrow> mpsc_producer_s"
  env_uninit_queue_cell :: "nat \<Rightarrow> nat"

text \<open>The product \<^verbatim>\<open>sizeof(T) * n\<close> of lines 132 to 147, computed in \<^verbatim>\<open>size_t\<close>: it
  wraps. The capacity \<^verbatim>\<open>n_max_producers\<close> is itself a \<^verbatim>\<open>size_t\<close>; the outcome below
  is \<open>Create_Ok\<close> only for a capacity whose four products do not wrap.\<close>

definition size_mul :: "create_env \<Rightarrow> nat \<Rightarrow> nat \<Rightarrow> nat" where
  "size_mul env sz k = nat ((int sz * int k) mod 2 ^ env_size_t_bits env)"

text \<open>The number of whole cells of \<open>sz\<close> bytes in the block that
  \<^verbatim>\<open>malloc(sizeof(T) * k)\<close> returns: \<open>k\<close> when the product does not wrap, fewer when it
  does.\<close>

definition array_cells :: "create_env \<Rightarrow> nat \<Rightarrow> nat \<Rightarrow> nat" where
  "array_cells env sz k = size_mul env sz k div sz"

text \<open>The fields of the struct under construction that the failure handler reads; a
  pointer is \<open>None\<close> for \<^verbatim>\<open>NULL\<close>. \<open>alloc_producer_condition_variables_cells\<close> is not a
  field of the struct: it is the number of cells of the block that
  \<^verbatim>\<open>producer_condition_variables\<close> points to.\<close>

record mpsc_alloc_s =
  alloc_n_max_producers :: nat
  alloc_buffer :: "nat option"
  alloc_producer_thread_ids :: "nat option"
  alloc_producers :: "nat option"
  alloc_producer_condition_variables :: "nat option"
  alloc_producer_condition_variables_cells :: nat
  alloc_producer_waiting_ids_queue :: "nat option"

datatype mpsc_handle_creation_failure_type_t =
    MPSC_HANDLE_CREATION_FAILURE_NONE
  | MPSC_HANDLE_CREATION_FAILURE_COND_VAR_INIT
  | MPSC_HANDLE_CREATION_FAILURE_MUTEX_INIT
  | MPSC_HANDLE_CREATION_FAILURE_THREAD_CREATE

text \<open>How \<^verbatim>\<open>mpsc_create\<close> ends: the channel; \<^verbatim>\<open>NULL\<close> with the value left in
  \<^verbatim>\<open>errno\<close>; an abort; a read through the null pointer \<^verbatim>\<open>self\<close>; an access to a cell
  past the end of the array of condition variables; or a channel one of whose other
  three arrays has fewer than \<^verbatim>\<open>n_max_producers\<close> cells, because the product that
  sized it wrapped. The behaviour of the last three is undefined, at once or at the
  first use of a missing cell, and is not followed further.\<close>

datatype create_outcome =
    Create_Ok mpsc_s
  | Create_Null errno_t
  | Create_Abort fatal
  | Create_Null_Deref
  | Create_Out_Of_Bounds
  | Create_Undersized

definition free_if_not_null :: "nat option \<Rightarrow> event list" where
  "free_if_not_null p = (case p of None \<Rightarrow> [] | Some a \<Rightarrow> [Ev_Free a])"

text \<open>The loops of lines 475, 482 and 496, which destroy the first \<open>k\<close> condition
  variables of an array of \<open>cells\<close> cells: \<open>None\<close> when they run past its end.\<close>

definition destroy_producer_condition_variables :: "nat \<Rightarrow> nat \<Rightarrow> event list option" where
  "destroy_producer_condition_variables cells k =
     (if k \<le> cells then Some (map (\<lambda>i. Ev_Cond_Destroy (Producer_CV i)) [0..<k]) else None)"

text \<open>\<^verbatim>\<open>mpsc_handle_creation_failure\<close>. \<open>self\<close> is \<open>None\<close> for the null pointer, else
  the address of the struct with its fields. The first read of a field of \<^verbatim>\<open>self\<close>
  comes before the test \<^verbatim>\<open>self != NULL\<close> of line 525.\<close>

definition mpsc_handle_creation_failure ::
  "(nat \<times> mpsc_alloc_s) option \<Rightarrow> mpsc_handle_creation_failure_type_t \<Rightarrow> int \<Rightarrow> errno_t
     \<Rightarrow> event list \<Rightarrow> create_outcome \<times> event list" where
  "mpsc_handle_creation_failure self type producer_cond_var_index errno evs =
     (if errno = EOTHER then (Create_Abort Fatal_Errno, evs)
      else
        let custom_errno = errno
        in case self of
             None \<Rightarrow> (Create_Null_Deref, evs)
           | Some (a, st) \<Rightarrow>
               let cells = alloc_producer_condition_variables_cells st;
                   destroyed =
                     (case type of
                        MPSC_HANDLE_CREATION_FAILURE_THREAD_CREATE \<Rightarrow>
                          map_option (\<lambda>ds. [Ev_Mutex_Destroy, Ev_Cond_Destroy Main_CV] @ ds)
                            (destroy_producer_condition_variables cells
                               (alloc_n_max_producers st))
                      | MPSC_HANDLE_CREATION_FAILURE_MUTEX_INIT \<Rightarrow>
                          map_option (\<lambda>ds. [Ev_Cond_Destroy Main_CV] @ ds)
                            (destroy_producer_condition_variables cells
                               (alloc_n_max_producers st))
                      | MPSC_HANDLE_CREATION_FAILURE_COND_VAR_INIT \<Rightarrow>
                          if producer_cond_var_index \<noteq> - 1 then
                            map_option (\<lambda>ds. [Ev_Cond_Destroy Main_CV] @ ds)
                              (destroy_producer_condition_variables cells
                                 (nat producer_cond_var_index))
                          else Some []
                      | MPSC_HANDLE_CREATION_FAILURE_NONE \<Rightarrow> Some []);
                   freed =
                     free_if_not_null (alloc_producer_condition_variables st)
                     @ free_if_not_null (alloc_producer_waiting_ids_queue st)
                     @ free_if_not_null (alloc_producers st)
                     @ free_if_not_null (alloc_producer_thread_ids st)
                     @ free_if_not_null (alloc_buffer st)
                     @ [Ev_Free a]
               in case destroyed of
                    None \<Rightarrow> (Create_Out_Of_Bounds, evs)
                  | Some ds \<Rightarrow> (Create_Null custom_errno, evs @ ds @ freed))"

text \<open>How the loop of lines 165 to 171 ends: every condition variable is initialised;
  the initialisation at an index is reported as failed; the process aborts; or the
  loop reaches a cell past the end of the array.\<close>

datatype cond_init_result =
    Init_All errno_t
  | Init_Failed nat errno_t
  | Init_Abort fatal
  | Init_Out_Of_Bounds nat

text \<open>The loop, over an array of \<open>cells\<close> cells, from index \<open>i\<close> up to \<open>m\<close>.\<close>

function cond_init_loop ::
  "(nat \<Rightarrow> reason_code) \<Rightarrow> bool \<Rightarrow> errno_t \<Rightarrow> nat \<Rightarrow> nat \<Rightarrow> nat \<Rightarrow> cond_init_result" where
  "cond_init_loop rcs handle_errors errno cells i m =
     (if i < m then
        (if cells \<le> i then Init_Out_Of_Bounds i
         else
           (case my_condition_variable_init (rcs i) handle_errors errno of
              Inl f \<Rightarrow> Init_Abort f
            | Inr (ok, e) \<Rightarrow>
                if ok then cond_init_loop rcs handle_errors e cells (i + 1) m
                else Init_Failed i e))
      else Init_All errno)"
  by pat_completeness auto
termination
  by (relation "measure (\<lambda>(rcs, h, e, c, i, m). m - i)") auto

declare cond_init_loop.simps [simp del]

text \<open>Lines 161 to 181: the condition variables, the mutex and the consumer thread,
  once the six allocations have succeeded. The channel is returned as \<open>Create_Ok\<close> when
  its arrays of thread handles, of producers and of waiting indices hold
  \<^verbatim>\<open>n_max_producers\<close> cells each.\<close>

definition create_sync ::
  "mpsc_create_params_t \<Rightarrow> create_env \<Rightarrow> nat \<times> mpsc_alloc_s \<Rightarrow> errno_t \<Rightarrow> event list
     \<Rightarrow> create_outcome \<times> event list" where
  "create_sync params env self errno evs =
     (let he = params_error_handling_enabled params;
          m = params_n_max_producers params;
          cells = alloc_producer_condition_variables_cells (snd self);
          cvs = (\<lambda>j. map (\<lambda>i. Ev_Cond_Init (Producer_CV i)) [0..<j])
      in case my_condition_variable_init (env_cond_init_main env) he errno of
           Inl f \<Rightarrow> (Create_Abort f, evs)
         | Inr (False, e1) \<Rightarrow>
             mpsc_handle_creation_failure (Some self)
               MPSC_HANDLE_CREATION_FAILURE_COND_VAR_INIT (- 1) e1 evs
         | Inr (True, e1) \<Rightarrow>
            (case cond_init_loop (env_cond_init_producer env) he e1 cells 0 m of
               Init_Abort f \<Rightarrow> (Create_Abort f, evs)
             | Init_Out_Of_Bounds i \<Rightarrow>
                 (Create_Out_Of_Bounds, evs @ [Ev_Cond_Init Main_CV] @ cvs i)
             | Init_Failed i e2 \<Rightarrow>
                 mpsc_handle_creation_failure (Some self)
                   MPSC_HANDLE_CREATION_FAILURE_COND_VAR_INIT (int i) e2
                   (evs @ [Ev_Cond_Init Main_CV] @ cvs i)
             | Init_All e2 \<Rightarrow>
                (case my_mutex_init (env_mutex_init env) he e2 of
                   Inl f \<Rightarrow> (Create_Abort f, evs)
                 | Inr (False, e3) \<Rightarrow>
                     mpsc_handle_creation_failure (Some self)
                       MPSC_HANDLE_CREATION_FAILURE_MUTEX_INIT (- 1) e3
                       (evs @ [Ev_Cond_Init Main_CV] @ cvs m)
                 | Inr (True, e3) \<Rightarrow>
                    (case my_thread_create (env_thread_create env) he e3 of
                       Inl f \<Rightarrow> (Create_Abort f, evs)
                     | Inr (False, e4) \<Rightarrow>
                         mpsc_handle_creation_failure (Some self)
                           MPSC_HANDLE_CREATION_FAILURE_THREAD_CREATE (- 1) e4
                           (evs @ [Ev_Cond_Init Main_CV] @ cvs m @ [Ev_Mutex_Init])
                     | Inr (True, e4) \<Rightarrow>
                         if array_cells env (env_sizeof_pthread_t env) m < m
                            \<or> array_cells env (env_sizeof_mpsc_producer_t env) m < m
                            \<or> array_cells env (env_sizeof_size_t env) m < m
                         then
                           (Create_Undersized,
                            evs @ [Ev_Cond_Init Main_CV] @ cvs m
                                @ [Ev_Mutex_Init, Ev_Thread_Create])
                         else
                         (Create_Ok
                            \<lparr>buffer_size = params_buffer_size params,
                             n_max_producers = m,
                             buffer = map (env_uninit_byte env) [0..<params_buffer_size params],
                             msg_n = 0,
                             pending_message = False,
                             joined = False,
                             closed = False,
                             n_producers_closed = 0,
                             error_handling_enabled = he,
                             create_and_join_thread_safety_disabled =
                               params_create_and_join_thread_safety_disabled params,
                             parent_thread_id = env_thread_self env,
                             n_producers_waiting = 0,
                             next_waiting_producer_id = - 1,
                             consumer_callback = params_consumer_callback params,
                             consumer_error_callback = params_consumer_error_callback params,
                             producers = map (env_uninit_producer env) [0..<m],
                             producer_count = 0,
                             producer_waiting_ids_queue = map (env_uninit_queue_cell env) [0..<m]\<rparr>,
                          evs @ [Ev_Cond_Init Main_CV] @ cvs m
                              @ [Ev_Mutex_Init, Ev_Thread_Create])))))"

text \<open>
  \<^verbatim>\<open>mpsc_create\<close>, lines 113 to 159, one definition for each \<^verbatim>\<open>my_malloc\<close> with the
  test that follows it, the last allocation first: each definition is the rest of the
  function from its allocation on. Each \<^verbatim>\<open>malloc\<close> is asked the size that the source
  computes. After the struct itself is allocated its pointer fields hold what the
  memory held; each is written by the assignment of its own \<^verbatim>\<open>my_malloc\<close>.
\<close>

definition create_failure ::
  "(nat \<times> mpsc_alloc_s) option \<Rightarrow> errno_t \<Rightarrow> event list \<Rightarrow> create_outcome \<times> event list" where
  "create_failure self e evs =
     mpsc_handle_creation_failure self MPSC_HANDLE_CREATION_FAILURE_NONE (- 1) e evs"

definition create_alloc_queue ::
  "mpsc_create_params_t \<Rightarrow> create_env \<Rightarrow> nat \<Rightarrow> mpsc_alloc_s \<Rightarrow> errno_t \<Rightarrow> event list
     \<Rightarrow> create_outcome \<times> event list" where
  "create_alloc_queue params env a st e evs =
     (case my_malloc
             (env_malloc_producer_waiting_ids_queue env
                (size_mul env (env_sizeof_size_t env) (params_n_max_producers params)))
             (params_error_handling_enabled params) e of
        Inl f \<Rightarrow> (Create_Abort f, evs)
      | Inr (None, e') \<Rightarrow>
          create_failure (Some (a, st\<lparr>alloc_producer_waiting_ids_queue := None\<rparr>)) e' evs
      | Inr (Some q, e') \<Rightarrow>
          create_sync params env (a, st\<lparr>alloc_producer_waiting_ids_queue := Some q\<rparr>) e'
            (evs @ [Ev_Malloc q]))"

definition create_alloc_condition_variables ::
  "mpsc_create_params_t \<Rightarrow> create_env \<Rightarrow> nat \<Rightarrow> mpsc_alloc_s \<Rightarrow> errno_t \<Rightarrow> event list
     \<Rightarrow> create_outcome \<times> event list" where
  "create_alloc_condition_variables params env a st e evs =
     (case my_malloc
             (env_malloc_producer_condition_variables env
                (size_mul env (env_sizeof_pthread_cond_t env) (params_n_max_producers params)))
             (params_error_handling_enabled params) e of
        Inl f \<Rightarrow> (Create_Abort f, evs)
      | Inr (None, e') \<Rightarrow>
          create_failure (Some (a, st\<lparr>alloc_producer_condition_variables := None\<rparr>)) e' evs
      | Inr (Some c, e') \<Rightarrow>
          create_alloc_queue params env a
            (st\<lparr>alloc_producer_condition_variables := Some c,
                alloc_producer_condition_variables_cells :=
                  array_cells env (env_sizeof_pthread_cond_t env)
                    (params_n_max_producers params)\<rparr>) e'
            (evs @ [Ev_Malloc c]))"

definition create_alloc_producers ::
  "mpsc_create_params_t \<Rightarrow> create_env \<Rightarrow> nat \<Rightarrow> mpsc_alloc_s \<Rightarrow> errno_t \<Rightarrow> event list
     \<Rightarrow> create_outcome \<times> event list" where
  "create_alloc_producers params env a st e evs =
     (case my_malloc
             (env_malloc_producers env
                (size_mul env (env_sizeof_mpsc_producer_t env) (params_n_max_producers params)))
             (params_error_handling_enabled params) e of
        Inl f \<Rightarrow> (Create_Abort f, evs)
      | Inr (None, e') \<Rightarrow> create_failure (Some (a, st\<lparr>alloc_producers := None\<rparr>)) e' evs
      | Inr (Some p, e') \<Rightarrow>
          create_alloc_condition_variables params env a (st\<lparr>alloc_producers := Some p\<rparr>) e'
            (evs @ [Ev_Malloc p]))"

definition create_alloc_thread_ids ::
  "mpsc_create_params_t \<Rightarrow> create_env \<Rightarrow> nat \<Rightarrow> mpsc_alloc_s \<Rightarrow> errno_t \<Rightarrow> event list
     \<Rightarrow> create_outcome \<times> event list" where
  "create_alloc_thread_ids params env a st e evs =
     (case my_malloc
             (env_malloc_producer_thread_ids env
                (size_mul env (env_sizeof_pthread_t env) (params_n_max_producers params)))
             (params_error_handling_enabled params) e of
        Inl f \<Rightarrow> (Create_Abort f, evs)
      | Inr (None, e') \<Rightarrow>
          create_failure (Some (a, st\<lparr>alloc_producer_thread_ids := None\<rparr>)) e' evs
      | Inr (Some t, e') \<Rightarrow>
          create_alloc_producers params env a (st\<lparr>alloc_producer_thread_ids := Some t\<rparr>) e'
            (evs @ [Ev_Malloc t]))"

definition create_alloc_buffer ::
  "mpsc_create_params_t \<Rightarrow> create_env \<Rightarrow> nat \<Rightarrow> mpsc_alloc_s \<Rightarrow> errno_t \<Rightarrow> event list
     \<Rightarrow> create_outcome \<times> event list" where
  "create_alloc_buffer params env a st e evs =
     (case my_malloc (env_malloc_buffer env (params_buffer_size params))
             (params_error_handling_enabled params) e of
        Inl f \<Rightarrow> (Create_Abort f, evs)
      | Inr (None, e') \<Rightarrow> create_failure (Some (a, st\<lparr>alloc_buffer := None\<rparr>)) e' evs
      | Inr (Some b, e') \<Rightarrow>
          create_alloc_thread_ids params env a (st\<lparr>alloc_buffer := Some b\<rparr>) e'
            (evs @ [Ev_Malloc b]))"

text \<open>The struct as \<^verbatim>\<open>malloc\<close> returns it: \<^verbatim>\<open>n_max_producers\<close> is assigned at line
  121, before any failure handler can read it; \<^verbatim>\<open>buffer\<close> is assigned at line 125.\<close>

definition fresh_struct :: "mpsc_create_params_t \<Rightarrow> create_env \<Rightarrow> mpsc_alloc_s" where
  "fresh_struct params env =
     \<lparr>alloc_n_max_producers = params_n_max_producers params,
      alloc_buffer = None,
      alloc_producer_thread_ids = env_uninit_producer_thread_ids env,
      alloc_producers = env_uninit_producers env,
      alloc_producer_condition_variables = env_uninit_producer_condition_variables env,
      alloc_producer_condition_variables_cells = 0,
      alloc_producer_waiting_ids_queue = env_uninit_producer_waiting_ids_queue env\<rparr>"

definition mpsc_create :: "mpsc_create_params_t \<Rightarrow> create_env \<Rightarrow> create_outcome \<times> event list" where
  "mpsc_create params env =
     (case mpsc_create_params_validate params of
        Some f \<Rightarrow> (Create_Abort f, [])
      | None \<Rightarrow>
         (case my_malloc (env_malloc_self env (env_sizeof_mpsc_t env))
                 (params_error_handling_enabled params) (env_errno env) of
            Inl f \<Rightarrow> (Create_Abort f, [])
          | Inr (None, e) \<Rightarrow> create_failure None e []
          | Inr (Some a, e) \<Rightarrow>
              create_alloc_buffer params env a (fresh_struct params env) e [Ev_Malloc a]))"

section \<open>The threads of a channel\<close>

text \<open>
  The mutex makes every critical section atomic, so a run of the program is a sequence
  of critical sections, each by one thread. A producer thread is in its task
  (\<open>PC_Task\<close>), blocked in the \<^verbatim>\<open>pthread_cond_wait\<close> of a \<^verbatim>\<open>mpsc_producer_send\<close>
  whose arguments it keeps (\<open>PC_Waiting\<close>), or past \<^verbatim>\<open>mpsc_producer_done\<close>
  (\<open>PC_Returned\<close>). A thread may return from \<^verbatim>\<open>pthread_cond_wait\<close> at any time,
  signalled or not.
\<close>

datatype thread_pc = PC_Task | PC_Waiting "byte list" nat | PC_Returned

record system =
  chan :: mpsc_s
  threads :: "thread_pc list"
  consumer_exited :: bool

datatype action =
    Act_Register reason_code nat nat
  | Act_Send nat "byte list" nat
  | Act_Wake nat
  | Act_Ping nat
  | Act_Task_Return nat
  | Act_Consume malloc_result
  | Act_Close
  | Act_Join_Enter nat
  | Act_Join_Close

text \<open>What a critical section did, as the function of the source reports it.\<close>

datatype label =
    L_Register mpsc_register_producer_error_t
  | L_Send nat send_outcome
  | L_Wake nat send_outcome
  | L_Ping nat bool
  | L_Task_Return nat
  | L_Consume consumer_outcome "event list"
  | L_Close
  | L_Join_Enter
  | L_Join_Close

definition send_thread_update :: "thread_pc list \<Rightarrow> nat \<Rightarrow> byte list \<Rightarrow> nat \<Rightarrow> send_outcome \<Rightarrow> thread_pc list" where
  "send_thread_update ts p data k out =
     (case out of
        Send_Wait _ \<Rightarrow> ts[p := PC_Waiting data k]
      | Send_Return _ \<Rightarrow> ts[p := PC_Task])"

text \<open>One critical section of one thread; \<open>None\<close> when the thread is not at a point
  where it can run it, or when the section aborts the process.\<close>

fun sys_step :: "system \<Rightarrow> action \<Rightarrow> (system \<times> label) option" where
  "sys_step s (Act_Register rc cb context) =
     (case mpsc_register_producer (chan s) rc cb context of
        Inl f \<Rightarrow> None
      | Inr (r, c, evs) \<Rightarrow>
          Some (s\<lparr>chan := c,
                  threads := (if r = MPSC_REGISTER_PRODUCER_ERROR_NONE
                              then threads s @ [PC_Task] else threads s)\<rparr>,
                L_Register r))"
| "sys_step s (Act_Send p data k) =
     (if p < length (threads s) \<and> threads s ! p = PC_Task \<and> k \<le> length data then
        case mpsc_producer_send (chan s) p data k of
          Inl f \<Rightarrow> None
        | Inr (out, c, evs) \<Rightarrow>
            Some (s\<lparr>chan := c, threads := send_thread_update (threads s) p data k out\<rparr>,
                  L_Send p out)
      else None)"
| "sys_step s (Act_Wake p) =
     (if p < length (threads s) then
        case threads s ! p of
          PC_Waiting data k \<Rightarrow>
            (case mpsc_producer_send_resume (chan s) p data k [Ev_Lock] of
               Inl f \<Rightarrow> None
             | Inr (out, c, evs) \<Rightarrow>
                 Some (s\<lparr>chan := c, threads := send_thread_update (threads s) p data k out\<rparr>,
                       L_Wake p out))
        | _ \<Rightarrow> None
      else None)"
| "sys_step s (Act_Ping p) =
     (if p < length (threads s) \<and> threads s ! p = PC_Task then
        Some (s, L_Ping p (fst (mpsc_producer_ping (chan s))))
      else None)"
| "sys_step s (Act_Task_Return p) =
     (if p < length (threads s) \<and> threads s ! p = PC_Task then
        Some (s\<lparr>chan := fst (mpsc_producer_done (chan s) p),
                threads := (threads s)[p := PC_Returned]\<rparr>,
              L_Task_Return p)
      else None)"
| "sys_step s (Act_Consume m) =
     (if consumer_exited s then None
      else case my_consumer_thread_callback (chan s) m of
             Inl f \<Rightarrow> None
           | Inr (out, c, evs) \<Rightarrow>
               Some (s\<lparr>chan := c, consumer_exited := (out = Consumer_Exit)\<rparr>,
                     L_Consume out evs))"
| "sys_step s Act_Close =
     Some (s\<lparr>chan := fst (mpsc_consumer_close (chan s))\<rparr>, L_Close)"
| "sys_step s (Act_Join_Enter tid) =
     (case mpsc_join_enter (chan s) tid of
        Inl f \<Rightarrow> None
      | Inr (c, evs) \<Rightarrow> Some (s\<lparr>chan := c\<rparr>, L_Join_Enter))"
| "sys_step s Act_Join_Close =
     (if joined (chan s) \<and> consumer_exited s then
        Some (s\<lparr>chan := fst (mpsc_join_close (chan s))\<rparr>, L_Join_Close)
      else None)"

fun exec :: "system \<Rightarrow> action list \<Rightarrow> (system \<times> label list) option" where
  "exec s [] = Some (s, [])"
| "exec s (a # as) =
     (case sys_step s a of
        None \<Rightarrow> None
      | Some (s1, l) \<Rightarrow>
          (case exec s1 as of
             None \<Rightarrow> None
           | Some (s2, ls) \<Rightarrow> Some (s2, l # ls)))"

text \<open>The system right after \<^verbatim>\<open>mpsc_create\<close> returned the channel \<open>c\<close>.\<close>

definition initial_system :: "mpsc_s \<Rightarrow> system" where
  "initial_system c = \<lparr>chan = c, threads = [], consumer_exited = False\<rparr>"

section \<open>Properties stated about the channel\<close>

text \<open>The message \<open>data\<close> of length \<open>k\<close> has been deposited by a critical section that
  ended in state \<open>s\<close> after the calls \<open>evs\<close>.\<close>

definition deposited :: "mpsc_s \<Rightarrow> event list \<Rightarrow> byte list \<Rightarrow> nat \<Rightarrow> bool" where
  "deposited s evs data k \<longleftrightarrow>
     take k (buffer s) = take k data \<and> msg_n s = k \<and> pending_message s
     \<and> Ev_Signal Main_CV \<in> set evs"

text \<open>No producer is elected, or the elected producer is the head of the wait queue.\<close>

definition handoff_invariant :: "mpsc_s \<Rightarrow> bool" where
  "handoff_invariant s \<longleftrightarrow>
     next_waiting_producer_id s = - 1
     \<or> (0 < n_producers_waiting s
        \<and> next_waiting_producer_id s = int (producer_waiting_ids_queue s ! 0))"

text \<open>The arrays have the size they were allocated with and the counters stay within
  it.\<close>

definition shape_invariant :: "mpsc_s \<Rightarrow> bool" where
  "shape_invariant s \<longleftrightarrow>
     length (producer_waiting_ids_queue s) = n_max_producers s
     \<and> length (producers s) = n_max_producers s
     \<and> n_producers_waiting s \<le> n_max_producers s
     \<and> producer_count s \<le> n_max_producers s"

text \<open>\<^verbatim>\<open>n_producers_closed\<close> counts the registered producers whose flag \<^verbatim>\<open>done\<close> is
  set.\<close>

definition done_invariant :: "mpsc_s \<Rightarrow> bool" where
  "done_invariant s \<longleftrightarrow>
     n_producers_closed s
       = length (filter done_flag (take (producer_count s) (producers s)))"

fun is_waiting :: "thread_pc \<Rightarrow> bool" where
  "is_waiting (PC_Waiting data k) = True"
| "is_waiting _ = False"

text \<open>While the channel is open the wait queue holds, once each, the producers that
  are blocked in \<^verbatim>\<open>mpsc_producer_send\<close>.\<close>

definition queue_invariant :: "system \<Rightarrow> bool" where
  "queue_invariant s \<longleftrightarrow>
     producer_count (chan s) = length (threads s)
     \<and> (closed (chan s)
        \<or> (distinct (wait_queue (chan s))
           \<and> set (wait_queue (chan s))
              = {p. p < length (threads s) \<and> is_waiting (threads s ! p)}))"

text \<open>\<open>a\<close> stands before \<open>b\<close> in the queue \<open>q\<close>.\<close>

definition precedes :: "nat \<Rightarrow> nat \<Rightarrow> nat list \<Rightarrow> bool" where
  "precedes a b q \<longleftrightarrow> (\<exists>xs ys zs. q = xs @ a # ys @ b # zs)"

text \<open>The consumer elected producer \<open>a\<close> in the critical section with label \<open>l\<close>: it
  signalled the condition variable of \<open>a\<close>.\<close>

fun elects :: "label \<Rightarrow> nat \<Rightarrow> bool" where
  "elects (L_Consume out evs) a = (Ev_Signal (Producer_CV a) \<in> set evs)"
| "elects _ a = False"

text \<open>How far producer \<open>a\<close> has come along a run: \<open>0\<close> before its election, \<open>1\<close> once
  elected, \<open>2\<close> once it has deposited its message after its election.\<close>

definition phase_step :: "nat \<Rightarrow> nat \<Rightarrow> label \<Rightarrow> nat" where
  "phase_step a ph l =
     (if ph = 0 \<and> elects l a then 1
      else if ph = 1 \<and> l = L_Wake a (Send_Return True) then 2
      else ph)"

fun served :: "nat \<Rightarrow> nat \<Rightarrow> label list \<Rightarrow> nat" where
  "served a ph [] = ph"
| "served a ph (l # ls) = served a (phase_step a ph l) ls"

text \<open>What the phase of a producer that entered the wait queue says about the channel:
  until it has deposited it is in the queue, and it is the elected producer exactly
  in phase \<open>1\<close>.\<close>

definition phase_invariant :: "nat \<Rightarrow> nat \<Rightarrow> system \<Rightarrow> bool" where
  "phase_invariant a ph s \<longleftrightarrow>
     2 \<le> ph
     \<or> (a \<in> set (wait_queue (chan s))
        \<and> (next_waiting_producer_id (chan s) = int a \<longleftrightarrow> ph = 1))"

definition system_invariant :: "system \<Rightarrow> bool" where
  "system_invariant s \<longleftrightarrow>
     shape_invariant (chan s) \<and> handoff_invariant (chan s) \<and> done_invariant (chan s)
     \<and> queue_invariant s"

section \<open>Unwinding a failed construction\<close>

text \<open>The call that gives back what a call acquired.\<close>

fun undo :: "event \<Rightarrow> event" where
  "undo (Ev_Malloc a) = Ev_Free a"
| "undo (Ev_Cond_Init c) = Ev_Cond_Destroy c"
| "undo Ev_Mutex_Init = Ev_Mutex_Destroy"
| "undo e = e"

fun is_acquisition :: "event \<Rightarrow> bool" where
  "is_acquisition (Ev_Malloc a) = True"
| "is_acquisition (Ev_Cond_Init c) = True"
| "is_acquisition Ev_Mutex_Init = True"
| "is_acquisition Ev_Thread_Create = True"
| "is_acquisition e = False"

fun is_release :: "event \<Rightarrow> bool" where
  "is_release (Ev_Free a) = True"
| "is_release (Ev_Cond_Destroy c) = True"
| "is_release Ev_Mutex_Destroy = True"
| "is_release e = False"










section \<open>A channel for three producers\<close>

text \<open>A report-policy channel with a slot of two bytes and room for three producers,
  the surroundings in which its construction succeeds, and some of its runs.\<close>

definition example_params :: mpsc_create_params_t where
  "example_params =
     \<lparr>params_buffer_size = 2, params_n_max_producers = 3,
      params_consumer_callback = Some 1, params_consumer_error_callback = Some 2,
      params_error_handling_enabled = True,
      params_create_and_join_thread_safety_disabled = False\<rparr>"

definition example_env :: create_env where
  "example_env =
     \<lparr>env_errno = EOTHER, env_thread_self = 7,
      env_size_t_bits = 64, env_sizeof_mpsc_t = 256, env_sizeof_pthread_t = 8,
      env_sizeof_mpsc_producer_t = 32, env_sizeof_pthread_cond_t = 48, env_sizeof_size_t = 8,
      env_malloc_self = (\<lambda>size. Malloc_Ptr 100), env_malloc_buffer = (\<lambda>size. Malloc_Ptr 200),
      env_malloc_producer_thread_ids = (\<lambda>size. Malloc_Ptr 300),
      env_malloc_producers = (\<lambda>size. Malloc_Ptr 400),
      env_malloc_producer_condition_variables = (\<lambda>size. Malloc_Ptr 500),
      env_malloc_producer_waiting_ids_queue = (\<lambda>size. Malloc_Ptr 600),
      env_cond_init_main = None, env_cond_init_producer = (\<lambda>i. None),
      env_mutex_init = None, env_thread_create = None,
      env_uninit_producer_thread_ids = Some 11, env_uninit_producers = Some 12,
      env_uninit_producer_condition_variables = Some 13,
      env_uninit_producer_waiting_ids_queue = Some 14,
      env_uninit_byte = (\<lambda>i. 0),
      env_uninit_producer = (\<lambda>i. \<lparr>application_context = 0, done_flag = True, callback = 0\<rparr>),
      env_uninit_queue_cell = (\<lambda>i. 9)\<rparr>"

definition example_channel :: mpsc_s where
  "example_channel =
     \<lparr>buffer_size = 2, n_max_producers = 3, buffer = [0, 0], msg_n = 0,
      pending_message = False, joined = False, closed = False, n_producers_closed = 0,
      error_handling_enabled = True, create_and_join_thread_safety_disabled = False,
      parent_thread_id = 7, n_producers_waiting = 0, next_waiting_producer_id = - 1,
      consumer_callback = Some 1, consumer_error_callback = Some 2,
      producers = [\<lparr>application_context = 0, done_flag = True, callback = 0\<rparr>,
                   \<lparr>application_context = 0, done_flag = True, callback = 0\<rparr>,
                   \<lparr>application_context = 0, done_flag = True, callback = 0\<rparr>],
      producer_count = 0, producer_waiting_ids_queue = [9, 9, 9]\<rparr>"

definition example_create_events :: "event list" where
  "example_create_events =
     [Ev_Malloc 100, Ev_Malloc 200, Ev_Malloc 300, Ev_Malloc 400, Ev_Malloc 500, Ev_Malloc 600,
      Ev_Cond_Init Main_CV, Ev_Cond_Init (Producer_CV 0), Ev_Cond_Init (Producer_CV 1),
      Ev_Cond_Init (Producer_CV 2), Ev_Mutex_Init, Ev_Thread_Create]"

text \<open>Three producers register; the first deposits two bytes at once, the second and
  the third find the slot taken and wait; the consumer delivers and elects the second,
  which deposits; the consumer delivers and elects the third, which deposits.\<close>

definition example_run :: "action list" where
  "example_run =
     [Act_Register None 5 6, Act_Register None 5 6, Act_Register None 5 6,
      Act_Send 0 [1, 2] 2, Act_Send 1 [3] 1, Act_Send 2 [] 0,
      Act_Consume (Malloc_Ptr 1), Act_Wake 1, Act_Consume (Malloc_Ptr 2), Act_Wake 2]"

definition example_labels :: "label list" where
  "example_labels =
     [L_Register MPSC_REGISTER_PRODUCER_ERROR_NONE,
      L_Register MPSC_REGISTER_PRODUCER_ERROR_NONE,
      L_Register MPSC_REGISTER_PRODUCER_ERROR_NONE,
      L_Send 0 (Send_Return True), L_Send 1 (Send_Wait 1), L_Send 2 (Send_Wait 2),
      L_Consume Consumer_Continue
        [Ev_Lock, Ev_Malloc 1, Ev_Signal (Producer_CV 1), Ev_Unlock,
         Ev_Callback (Some [1, 2]) 2 False],
      L_Wake 1 (Send_Return True),
      L_Consume Consumer_Continue
        [Ev_Lock, Ev_Malloc 2, Ev_Signal (Producer_CV 2), Ev_Unlock,
         Ev_Callback (Some [3]) 1 False],
      L_Wake 2 (Send_Return True)]"

text \<open>The channel with one producer registered, and the same once \<^verbatim>\<open>mpsc_join\<close> has
  been entered while that producer still runs.\<close>

definition example_registered :: mpsc_s where
  "example_registered =
     example_channel
       \<lparr>producers := [\<lparr>application_context = 6, done_flag = False, callback = 5\<rparr>,
                      \<lparr>application_context = 0, done_flag = True, callback = 0\<rparr>,
                      \<lparr>application_context = 0, done_flag = True, callback = 0\<rparr>],
        producer_count := 1\<rparr>"

definition example_joined :: mpsc_s where
  "example_joined = example_registered\<lparr>joined := True\<rparr>"

text \<open>The channel once its producer has deposited the byte 2, its second message, while
  the consumer callback handles the first, and the same once that callback has closed
  the channel.\<close>

definition example_pending :: mpsc_s where
  "example_pending = example_registered\<lparr>buffer := [2, 0], msg_n := 1, pending_message := True\<rparr>"

definition example_closed_pending :: mpsc_s where
  "example_closed_pending = example_pending\<lparr>closed := True\<rparr>"

text \<open>The channel with all three producers registered.\<close>

definition example_full :: mpsc_s where
  "example_full =
     example_channel
       \<lparr>producers := [\<lparr>application_context = 6, done_flag = False, callback = 5\<rparr>,
                      \<lparr>application_context = 6, done_flag = False, callback = 5\<rparr>,
                      \<lparr>application_context = 6, done_flag = False, callback = 5\<rparr>],
        producer_count := 3\<rparr>"

text \<open>The channel of the run above once the consumer has delivered the first message
  and elected producer 1, producers 1 and 2 waiting; and the same once the consumer
  callback has closed the channel.\<close>

definition example_elected :: mpsc_s where
  "example_elected =
     example_full\<lparr>buffer := [1, 2], n_producers_waiting := 2,
                  next_waiting_producer_id := 1, producer_waiting_ids_queue := [1, 2, 9]\<rparr>"

definition example_closed_elected :: mpsc_s where
  "example_closed_elected = example_elected\<lparr>closed := True\<rparr>"

section \<open>The wait queue as a list\<close>

lemma find_snoc:
  "find P (xs @ [y])
     = (case find P xs of None \<Rightarrow> (if P y then Some y else None) | Some x \<Rightarrow> Some x)"
  by (induction xs) auto

lemma find_index: "find (\<lambda>i. i = p) [0..<m] = (if p < m then Some p else None)"
  by (induction m) (auto simp: find_snoc)

lemma shift_loop_length [simp]: "length (shift_loop i m q) = length q"
proof (induction i m q rule: shift_loop.induct)
  case (1 i m q)
  then show ?case by (subst shift_loop.simps) simp
qed

lemma shift_loop_nth:
  "m < length q \<Longrightarrow> j < length q \<Longrightarrow>
     shift_loop i m q ! j = (if i \<le> j \<and> j < m then q ! (j + 1) else q ! j)"
proof (induction i m q arbitrary: j rule: shift_loop.induct)
  case (1 i m q)
  show ?case
  proof (cases "i < m")
    case True
    have "shift_loop i m q ! j = shift_loop (i + 1) m (q[i := q ! (i + 1)]) ! j"
      using True by (subst shift_loop.simps) simp
    also have "\<dots> = (if i + 1 \<le> j \<and> j < m then q[i := q ! (i + 1)] ! (j + 1)
                      else q[i := q ! (i + 1)] ! j)"
      using "1.IH" [OF True, of j] "1.prems" by simp
    also have "\<dots> = (if i \<le> j \<and> j < m then q ! (j + 1) else q ! j)"
      using True "1.prems" by (auto simp: nth_list_update)
    finally show ?thesis .
  next
    case False
    then show ?thesis by (subst shift_loop.simps) simp
  qed
qed

lemma shift_loop_take:
  assumes "0 < w" and "w \<le> length q"
  shows "take (w - 1) (shift_loop 0 (w - 1) q) = tl (take w q)"
proof (rule nth_equalityI)
  show "length (take (w - 1) (shift_loop 0 (w - 1) q)) = length (tl (take w q))"
    using assms by simp
next
  fix j assume "j < length (take (w - 1) (shift_loop 0 (w - 1) q))"
  then have j: "j < w - 1" by simp
  with assms have "shift_loop 0 (w - 1) q ! j = q ! (j + 1)"
    by (subst shift_loop_nth) auto
  with j assms show "take (w - 1) (shift_loop 0 (w - 1) q) ! j = tl (take w q) ! j"
    by (simp add: nth_tl)
qed

lemma shift_wait_queue:
  assumes "mpsc_shift_producer_wait_queue s = Inr s'"
    and "n_producers_waiting s \<le> length (producer_waiting_ids_queue s)"
  shows "wait_queue s' = tl (wait_queue s)"
  using assms shift_loop_take [of "n_producers_waiting s" "producer_waiting_ids_queue s"]
  by (auto simp: mpsc_shift_producer_wait_queue_def wait_queue_def split: if_splits)

lemma subscribe_wait_queue:
  assumes "mpsc_producer_subscribe_to_wait_queue s p = Inr (i, s')"
    and "n_producers_waiting s \<le> n_max_producers s"
    and "length (producer_waiting_ids_queue s) = n_max_producers s"
  shows "i = p \<and> wait_queue s' = wait_queue s @ [p]"
  using assms
  by (auto simp: mpsc_producer_subscribe_to_wait_queue_def wait_queue_def find_index
        take_Suc_conv_app_nth split: if_splits)

section \<open>Preservation of the shape of the arrays\<close>

lemma shape_register:
  "mpsc_register_producer c rc cb ctx = Inr (r, c', evs) \<Longrightarrow> shape_invariant c \<Longrightarrow> shape_invariant c'"
  by (auto simp: mpsc_register_producer_def shape_invariant_def Let_def my_thread_create_def
      split: if_splits sum.splits option.splits bool.splits)

lemma shape_subscribe:
  "mpsc_producer_subscribe_to_wait_queue c p = Inr (i, c') \<Longrightarrow> shape_invariant c \<Longrightarrow> shape_invariant c'"
  by (auto simp: mpsc_producer_subscribe_to_wait_queue_def shape_invariant_def
      split: if_splits option.splits)

lemma shape_resume:
  "mpsc_producer_send_resume c i d k e = Inr (out, c', evs) \<Longrightarrow> shape_invariant c \<Longrightarrow> shape_invariant c'"
  by (auto simp: mpsc_producer_send_resume_def mpsc_shift_producer_wait_queue_def send_deposit_def
        shape_invariant_def split: if_splits sum.splits)

lemma shape_send:
  "mpsc_producer_send c p d k = Inr (out, c', evs) \<Longrightarrow> shape_invariant c \<Longrightarrow> shape_invariant c'"
  by (auto simp: mpsc_producer_send_def send_deposit_def split: if_splits sum.splits
      dest: shape_subscribe shape_resume)
    (auto simp: shape_invariant_def)

lemma shape_consumer:
  "my_consumer_thread_callback c m = Inr (out, c', evs) \<Longrightarrow> shape_invariant c \<Longrightarrow> shape_invariant c'"
  by (auto simp: my_consumer_thread_callback_def consumer_deliver_def my_malloc_def Let_def
        shape_invariant_def split: if_splits sum.splits option.splits malloc_result.splits)

lemma shape_done: "shape_invariant c \<Longrightarrow> shape_invariant (fst (mpsc_producer_done c p))"
  by (auto simp: mpsc_producer_done_def shape_invariant_def Let_def)

lemma shape_close: "shape_invariant c \<Longrightarrow> shape_invariant (fst (mpsc_consumer_close c))"
  by (auto simp: mpsc_consumer_close_def shape_invariant_def)

lemma shape_join_enter:
  "mpsc_join_enter c t = Inr (c', evs) \<Longrightarrow> shape_invariant c \<Longrightarrow> shape_invariant c'"
  by (auto simp: mpsc_join_enter_def shape_invariant_def Let_def split: if_splits)

lemma shape_join_close: "shape_invariant c \<Longrightarrow> shape_invariant (fst (mpsc_join_close c))"
  by (auto simp: mpsc_join_close_def shape_invariant_def)

lemma shape_sys_step:
  assumes "sys_step s a = Some (s', l)" and "shape_invariant (chan s)"
  shows "shape_invariant (chan s')"
proof (cases a)
  case (Act_Register rc cb ctx)
  with assms show ?thesis by (auto split: sum.splits dest: shape_register)
next
  case (Act_Send p d k)
  with assms show ?thesis by (auto split: sum.splits if_splits dest: shape_send)
next
  case (Act_Wake p)
  with assms show ?thesis
    by (auto split: sum.splits if_splits thread_pc.splits dest: shape_resume)
next
  case (Act_Ping p)
  with assms show ?thesis by (auto split: if_splits)
next
  case (Act_Task_Return p)
  with assms show ?thesis by (auto split: if_splits simp: shape_done)
next
  case (Act_Consume m)
  with assms show ?thesis by (auto split: sum.splits if_splits dest: shape_consumer)
next
  case Act_Close
  with assms show ?thesis by (auto simp: shape_close)
next
  case (Act_Join_Enter t)
  with assms show ?thesis by (auto split: sum.splits dest: shape_join_enter)
next
  case Act_Join_Close
  with assms show ?thesis by (auto split: if_splits simp: shape_join_close)
qed

section \<open>Preservation of the election invariant\<close>

lemma handoff_register:
  "mpsc_register_producer c rc cb ctx = Inr (r, c', evs) \<Longrightarrow> handoff_invariant c \<Longrightarrow> handoff_invariant c'"
  by (auto simp: mpsc_register_producer_def handoff_invariant_def Let_def my_thread_create_def
      split: if_splits sum.splits option.splits bool.splits)

lemma handoff_subscribe:
  "mpsc_producer_subscribe_to_wait_queue c p = Inr (i, c') \<Longrightarrow> handoff_invariant c \<Longrightarrow> handoff_invariant c'"
  by (auto simp: mpsc_producer_subscribe_to_wait_queue_def handoff_invariant_def
      split: if_splits option.splits)

lemma handoff_resume:
  "mpsc_producer_send_resume c i d k e = Inr (out, c', evs) \<Longrightarrow> handoff_invariant c \<Longrightarrow> handoff_invariant c'"
  by (auto simp: mpsc_producer_send_resume_def mpsc_shift_producer_wait_queue_def send_deposit_def
        handoff_invariant_def split: if_splits sum.splits)

lemma handoff_send:
  "mpsc_producer_send c p d k = Inr (out, c', evs) \<Longrightarrow> handoff_invariant c \<Longrightarrow> handoff_invariant c'"
  by (auto simp: mpsc_producer_send_def send_deposit_def split: if_splits sum.splits
      dest: handoff_subscribe handoff_resume)
    (auto simp: handoff_invariant_def)

lemma handoff_consumer:
  "my_consumer_thread_callback c m = Inr (out, c', evs) \<Longrightarrow> handoff_invariant c \<Longrightarrow> handoff_invariant c'"
  by (auto simp: my_consumer_thread_callback_def consumer_deliver_def my_malloc_def Let_def
        handoff_invariant_def split: if_splits sum.splits option.splits malloc_result.splits)

lemma handoff_done: "handoff_invariant c \<Longrightarrow> handoff_invariant (fst (mpsc_producer_done c p))"
  by (auto simp: mpsc_producer_done_def handoff_invariant_def Let_def)

lemma handoff_close: "handoff_invariant c \<Longrightarrow> handoff_invariant (fst (mpsc_consumer_close c))"
  by (auto simp: mpsc_consumer_close_def handoff_invariant_def)

lemma handoff_join_enter:
  "mpsc_join_enter c t = Inr (c', evs) \<Longrightarrow> handoff_invariant c \<Longrightarrow> handoff_invariant c'"
  by (auto simp: mpsc_join_enter_def handoff_invariant_def Let_def split: if_splits)

lemma handoff_join_close: "handoff_invariant c \<Longrightarrow> handoff_invariant (fst (mpsc_join_close c))"
  by (auto simp: mpsc_join_close_def handoff_invariant_def)

lemma handoff_sys_step:
  assumes "sys_step s a = Some (s', l)" and "handoff_invariant (chan s)"
  shows "handoff_invariant (chan s')"
proof (cases a)
  case (Act_Register rc cb ctx)
  with assms show ?thesis by (auto split: sum.splits dest: handoff_register)
next
  case (Act_Send p d k)
  with assms show ?thesis by (auto split: sum.splits if_splits dest: handoff_send)
next
  case (Act_Wake p)
  with assms show ?thesis
    by (auto split: sum.splits if_splits thread_pc.splits dest: handoff_resume)
next
  case (Act_Ping p)
  with assms show ?thesis by (auto split: if_splits)
next
  case (Act_Task_Return p)
  with assms show ?thesis by (auto split: if_splits simp: handoff_done)
next
  case (Act_Consume m)
  with assms show ?thesis by (auto split: sum.splits if_splits dest: handoff_consumer)
next
  case Act_Close
  with assms show ?thesis by (auto simp: handoff_close)
next
  case (Act_Join_Enter t)
  with assms show ?thesis by (auto split: sum.splits dest: handoff_join_enter)
next
  case Act_Join_Close
  with assms show ?thesis by (auto split: if_splits simp: handoff_join_close)
qed

section \<open>Runs\<close>

lemma exec_invariant:
  assumes step: "\<And>s a s' l. P s \<Longrightarrow> sys_step s a = Some (s', l) \<Longrightarrow> P s'"
  shows "P s \<Longrightarrow> exec s as = Some (s', ls) \<Longrightarrow> P s'"
proof (induction as arbitrary: s ls)
  case Nil
  then show ?case by simp
next
  case (Cons a as)
  from Cons.prems(2) obtain s1 l ls1 where
    a: "sys_step s a = Some (s1, l)" and r: "exec s1 as = Some (s', ls1)"
    by (auto split: option.splits)
  from step [OF Cons.prems(1) a] have "P s1" .
  from Cons.IH [OF this r] show ?case .
qed

section \<open>The channel that \<^verbatim>\<open>mpsc_create\<close> returns\<close>

lemma handler_not_ok: "mpsc_handle_creation_failure self ty i e evs \<noteq> (Create_Ok c, evs')"
  by (auto simp: mpsc_handle_creation_failure_def Let_def split: option.splits)

lemma create_sync_ok:
  assumes "create_sync params env self e evs = (Create_Ok c, evs')"
  shows "n_producers_waiting c = 0 \<and> next_waiting_producer_id c = - 1 \<and> producer_count c = 0
     \<and> n_producers_closed c = 0 \<and> \<not> closed c \<and> \<not> joined c \<and> \<not> pending_message c
     \<and> n_max_producers c = params_n_max_producers params
     \<and> buffer_size c = params_buffer_size params
     \<and> length (buffer c) = params_buffer_size params
     \<and> length (producers c) = params_n_max_producers params
     \<and> length (producer_waiting_ids_queue c) = params_n_max_producers params"
  using assms
  by (auto simp: create_sync_def Let_def handler_not_ok
      split: sum.splits bool.splits option.splits cond_init_result.splits if_splits)

lemma create_ok:
  assumes "mpsc_create params env = (Create_Ok c, evs)"
  shows "n_producers_waiting c = 0 \<and> next_waiting_producer_id c = - 1 \<and> producer_count c = 0
     \<and> n_producers_closed c = 0 \<and> \<not> closed c \<and> \<not> joined c \<and> \<not> pending_message c
     \<and> n_max_producers c = params_n_max_producers params
     \<and> buffer_size c = params_buffer_size params
     \<and> length (buffer c) = params_buffer_size params
     \<and> length (producers c) = params_n_max_producers params
     \<and> length (producer_waiting_ids_queue c) = params_n_max_producers params"
proof -
  from assms obtain self e evs1 where "create_sync params env self e evs1 = (Create_Ok c, evs)"
    by (auto simp: mpsc_create_def create_alloc_buffer_def create_alloc_thread_ids_def
          create_alloc_producers_def create_alloc_condition_variables_def create_alloc_queue_def
          create_failure_def handler_not_ok
        split: option.splits sum.splits)
  from create_sync_ok [OF this] show ?thesis .
qed

section \<open>Preservation of the count of finished producers\<close>

lemma filter_update_length:
  "p < length xs \<Longrightarrow> \<not> P (xs ! p) \<Longrightarrow> P y \<Longrightarrow>
     length (filter P (xs[p := y])) = Suc (length (filter P xs))"
proof (induction xs arbitrary: p)
  case Nil
  then show ?case by simp
next
  case (Cons x xs)
  then show ?case by (cases p) auto
qed

lemma done_register:
  assumes "mpsc_register_producer c rc cb ctx = Inr (r, c', evs)"
    and "done_invariant c" and "shape_invariant c"
  shows "done_invariant c'"
  using assms
  by (auto simp: mpsc_register_producer_def done_invariant_def shape_invariant_def Let_def
        my_thread_create_def take_Suc_conv_app_nth
      split: if_splits sum.splits option.splits bool.splits)

lemma done_resume:
  "mpsc_producer_send_resume c i d k e = Inr (out, c', evs) \<Longrightarrow> done_invariant c \<Longrightarrow> done_invariant c'"
  by (auto simp: mpsc_producer_send_resume_def mpsc_shift_producer_wait_queue_def send_deposit_def
        done_invariant_def split: if_splits sum.splits)

lemma done_subscribe:
  "mpsc_producer_subscribe_to_wait_queue c p = Inr (i, c') \<Longrightarrow> done_invariant c \<Longrightarrow> done_invariant c'"
  by (auto simp: mpsc_producer_subscribe_to_wait_queue_def done_invariant_def
      split: if_splits option.splits)

lemma done_send:
  "mpsc_producer_send c p d k = Inr (out, c', evs) \<Longrightarrow> done_invariant c \<Longrightarrow> done_invariant c'"
  by (auto simp: mpsc_producer_send_def send_deposit_def split: if_splits sum.splits
      dest: done_subscribe done_resume)
    (auto simp: done_invariant_def)

lemma done_consumer:
  "my_consumer_thread_callback c m = Inr (out, c', evs) \<Longrightarrow> done_invariant c \<Longrightarrow> done_invariant c'"
  by (auto simp: my_consumer_thread_callback_def consumer_deliver_def my_malloc_def Let_def
        done_invariant_def split: if_splits sum.splits option.splits malloc_result.splits)

lemma done_done:
  assumes "done_invariant c" and "p < producer_count c" and "producer_count c \<le> length (producers c)"
  shows "done_invariant (fst (mpsc_producer_done c p))"
  using assms
  by (auto simp: mpsc_producer_done_def done_invariant_def Let_def take_update_swap
        filter_update_length)

lemma done_close: "done_invariant c \<Longrightarrow> done_invariant (fst (mpsc_consumer_close c))"
  by (auto simp: mpsc_consumer_close_def done_invariant_def)

lemma done_join_enter:
  "mpsc_join_enter c t = Inr (c', evs) \<Longrightarrow> done_invariant c \<Longrightarrow> done_invariant c'"
  by (auto simp: mpsc_join_enter_def done_invariant_def Let_def split: if_splits)

lemma done_join_close: "done_invariant c \<Longrightarrow> done_invariant (fst (mpsc_join_close c))"
  by (auto simp: mpsc_join_close_def done_invariant_def)

text \<open>Every registered producer has a thread.\<close>

lemma count_register:
  "mpsc_register_producer c rc cb ctx = Inr (r, c', evs) \<Longrightarrow>
     producer_count c' = (if r = MPSC_REGISTER_PRODUCER_ERROR_NONE then producer_count c + 1 else producer_count c)"
  by (auto simp: mpsc_register_producer_def Let_def my_thread_create_def
      split: if_splits sum.splits option.splits bool.splits)

lemma count_resume:
  "mpsc_producer_send_resume c i d k e = Inr (out, c', evs) \<Longrightarrow> producer_count c' = producer_count c"
  by (auto simp: mpsc_producer_send_resume_def mpsc_shift_producer_wait_queue_def send_deposit_def
        split: if_splits sum.splits)

lemma count_send:
  "mpsc_producer_send c p d k = Inr (out, c', evs) \<Longrightarrow> producer_count c' = producer_count c"
  by (auto simp: mpsc_producer_send_def send_deposit_def mpsc_producer_subscribe_to_wait_queue_def
      split: if_splits sum.splits option.splits dest!: count_resume)

lemma count_consumer:
  "my_consumer_thread_callback c m = Inr (out, c', evs) \<Longrightarrow> producer_count c' = producer_count c"
  by (auto simp: my_consumer_thread_callback_def consumer_deliver_def my_malloc_def Let_def
        split: if_splits sum.splits option.splits malloc_result.splits)

lemma count_done: "producer_count (fst (mpsc_producer_done c p)) = producer_count c"
  by (auto simp: mpsc_producer_done_def Let_def)

lemma count_close: "producer_count (fst (mpsc_consumer_close c)) = producer_count c"
  by (auto simp: mpsc_consumer_close_def)

lemma count_join_enter:
  "mpsc_join_enter c t = Inr (c', evs) \<Longrightarrow> producer_count c' = producer_count c"
  by (auto simp: mpsc_join_enter_def Let_def split: if_splits)

lemma count_join_close: "producer_count (fst (mpsc_join_close c)) = producer_count c"
  by (auto simp: mpsc_join_close_def)

lemma length_send_thread_update [simp]:
  "length (send_thread_update ts p d k out) = length ts"
  by (cases out) (simp_all add: send_thread_update_def)

lemma threads_sys_step:
  assumes "sys_step s a = Some (s', l)" and "length (threads s) = producer_count (chan s)"
  shows "length (threads s') = producer_count (chan s')"
proof (cases a)
  case (Act_Register rc cb ctx)
  with assms show ?thesis by (auto split: sum.splits dest: count_register)
next
  case (Act_Send p d k)
  with assms show ?thesis by (auto split: sum.splits if_splits dest: count_send)
next
  case (Act_Wake p)
  with assms show ?thesis
    by (auto split: sum.splits if_splits thread_pc.splits dest: count_resume)
next
  case (Act_Ping p)
  with assms show ?thesis by (auto split: if_splits)
next
  case (Act_Task_Return p)
  with assms show ?thesis by (auto split: if_splits simp: count_done)
next
  case (Act_Consume m)
  with assms show ?thesis by (auto split: sum.splits if_splits dest: count_consumer)
next
  case Act_Close
  with assms show ?thesis by (auto simp: count_close)
next
  case (Act_Join_Enter t)
  with assms show ?thesis by (auto split: sum.splits dest: count_join_enter)
next
  case Act_Join_Close
  with assms show ?thesis by (auto split: if_splits simp: count_join_close)
qed

lemma done_sys_step:
  assumes "sys_step s a = Some (s', l)" and "done_invariant (chan s)"
    and "shape_invariant (chan s)" and "length (threads s) = producer_count (chan s)"
  shows "done_invariant (chan s')"
proof (cases a)
  case (Act_Register rc cb ctx)
  with assms show ?thesis by (auto split: sum.splits dest: done_register)
next
  case (Act_Send p d k)
  with assms show ?thesis by (auto split: sum.splits if_splits dest: done_send)
next
  case (Act_Wake p)
  with assms show ?thesis
    by (auto split: sum.splits if_splits thread_pc.splits dest: done_resume)
next
  case (Act_Ping p)
  with assms show ?thesis by (auto split: if_splits)
next
  case (Act_Task_Return p)
  with assms show ?thesis
    by (auto split: if_splits simp: shape_invariant_def intro!: done_done)
next
  case (Act_Consume m)
  with assms show ?thesis by (auto split: sum.splits if_splits dest: done_consumer)
next
  case Act_Close
  with assms show ?thesis by (auto simp: done_close)
next
  case (Act_Join_Enter t)
  with assms show ?thesis by (auto split: sum.splits dest: done_join_enter)
next
  case Act_Join_Close
  with assms show ?thesis by (auto split: if_splits simp: done_join_close)
qed

section \<open>What each critical section does to the wait queue\<close>

lemma register_frame:
  "mpsc_register_producer c rc cb ctx = Inr (r, c', evs) \<Longrightarrow>
     wait_queue c' = wait_queue c \<and> closed c' = closed c
     \<and> next_waiting_producer_id c' = next_waiting_producer_id c"
  by (auto simp: mpsc_register_producer_def Let_def my_thread_create_def wait_queue_def
      split: if_splits sum.splits option.splits bool.splits)

lemma consumer_frame:
  assumes "my_consumer_thread_callback c m = Inr (out, c', evs)"
  shows "wait_queue c' = wait_queue c \<and> closed c' = closed c
     \<and> ((next_waiting_producer_id c' = next_waiting_producer_id c
           \<and> (\<forall>x. Ev_Signal (Producer_CV x) \<notin> set evs))
         \<or> (\<not> closed c \<and> 0 < n_producers_waiting c
            \<and> next_waiting_producer_id c' = int (producer_waiting_ids_queue c ! 0)
            \<and> (\<forall>x. Ev_Signal (Producer_CV x) \<in> set evs
                    \<longleftrightarrow> x = producer_waiting_ids_queue c ! 0)))"
  using assms
  by (auto simp: my_consumer_thread_callback_def consumer_deliver_def my_malloc_def Let_def
        wait_queue_def split: if_splits sum.splits option.splits malloc_result.splits)

lemma done_frame:
  "wait_queue (fst (mpsc_producer_done c p)) = wait_queue c
   \<and> (closed c \<longrightarrow> closed (fst (mpsc_producer_done c p)))
   \<and> next_waiting_producer_id (fst (mpsc_producer_done c p)) = next_waiting_producer_id c"
  by (auto simp: mpsc_producer_done_def Let_def wait_queue_def)

lemma close_frame:
  "wait_queue (fst (mpsc_consumer_close c)) = wait_queue c
   \<and> closed (fst (mpsc_consumer_close c))
   \<and> next_waiting_producer_id (fst (mpsc_consumer_close c)) = next_waiting_producer_id c"
  by (auto simp: mpsc_consumer_close_def wait_queue_def)

lemma join_enter_frame:
  "mpsc_join_enter c t = Inr (c', evs) \<Longrightarrow>
     wait_queue c' = wait_queue c \<and> (closed c \<longrightarrow> closed c')
     \<and> next_waiting_producer_id c' = next_waiting_producer_id c"
  by (auto simp: mpsc_join_enter_def Let_def wait_queue_def split: if_splits)

lemma join_close_frame:
  "wait_queue (fst (mpsc_join_close c)) = wait_queue c
   \<and> closed (fst (mpsc_join_close c))
   \<and> next_waiting_producer_id (fst (mpsc_join_close c)) = next_waiting_producer_id c"
  by (auto simp: mpsc_join_close_def wait_queue_def)

lemma deposit_frame:
  "send_deposit c d k e = Inr (out, c', evs) \<Longrightarrow>
     out = Send_Return True \<and> wait_queue c' = wait_queue c \<and> closed c' = closed c
     \<and> next_waiting_producer_id c' = next_waiting_producer_id c"
  by (auto simp: send_deposit_def wait_queue_def)

lemma shift_frame:
  assumes "mpsc_shift_producer_wait_queue c = Inr c'" and "shape_invariant c"
  shows "0 < n_producers_waiting c \<and> wait_queue c' = tl (wait_queue c) \<and> closed c' = closed c
     \<and> next_waiting_producer_id c' = - 1"
proof -
  from assms(2) have "n_producers_waiting c \<le> length (producer_waiting_ids_queue c)"
    by (simp add: shape_invariant_def)
  from shift_wait_queue [OF assms(1) this] assms(1) show ?thesis
    by (auto simp: mpsc_shift_producer_wait_queue_def split: if_splits)
qed

lemma resume_cases:
  assumes "mpsc_producer_send_resume c i d k e = Inr (out, c', evs)" and "shape_invariant c"
  shows "(\<not> closed c \<and> next_waiting_producer_id c \<noteq> int i \<and> out = Send_Wait i \<and> c' = c)
       \<or> (closed c \<and> out = Send_Return False \<and> c' = c)
       \<or> (\<not> closed c \<and> next_waiting_producer_id c = int i \<and> 0 < n_producers_waiting c
          \<and> out = Send_Return True \<and> wait_queue c' = tl (wait_queue c) \<and> \<not> closed c'
          \<and> next_waiting_producer_id c' = - 1)"
proof (cases "\<not> closed c \<and> next_waiting_producer_id c \<noteq> int i")
  case True
  with assms show ?thesis by (auto simp: mpsc_producer_send_resume_def)
next
  case False
  show ?thesis
  proof (cases "closed c")
    case True
    with assms show ?thesis by (auto simp: mpsc_producer_send_resume_def)
  next
    case op: False
    with False have n: "next_waiting_producer_id c = int i" by simp
    from assms(1) op n obtain c1 where
      sh: "mpsc_shift_producer_wait_queue c = Inr c1"
      and dep: "send_deposit c1 d k e = Inr (out, c', evs)"
      by (auto simp: mpsc_producer_send_resume_def split: sum.splits)
    from shift_frame [OF sh assms(2)] deposit_frame [OF dep] op n show ?thesis by simp
  qed
qed

lemma subscribe_frame:
  assumes "mpsc_producer_subscribe_to_wait_queue c p = Inr (i, c')" and "shape_invariant c"
  shows "i = p \<and> wait_queue c' = wait_queue c @ [p] \<and> closed c' = closed c
     \<and> next_waiting_producer_id c' = next_waiting_producer_id c \<and> shape_invariant c'"
proof -
  from assms(2) have "n_producers_waiting c \<le> n_max_producers c"
    "length (producer_waiting_ids_queue c) = n_max_producers c"
    by (simp_all add: shape_invariant_def)
  from subscribe_wait_queue [OF assms(1) this] shape_subscribe [OF assms] assms(1)
  show ?thesis
    by (auto simp: mpsc_producer_subscribe_to_wait_queue_def split: option.splits if_splits)
qed

lemma send_cases:
  assumes "mpsc_producer_send c p d k = Inr (out, c', evs)" and "shape_invariant c"
  shows "(closed c \<and> out = Send_Return False \<and> c' = c)
       \<or> (\<not> closed c \<and> out = Send_Return True \<and> wait_queue c' = wait_queue c \<and> \<not> closed c'
          \<and> next_waiting_producer_id c' = next_waiting_producer_id c)
       \<or> (\<not> closed c \<and>
          (\<exists>c1. wait_queue c1 = wait_queue c @ [p] \<and> \<not> closed c1
             \<and> next_waiting_producer_id c1 = next_waiting_producer_id c \<and> shape_invariant c1
             \<and> mpsc_producer_send_resume c1 p d k [Ev_Lock] = Inr (out, c', evs)))"
proof (cases "closed c")
  case True
  with assms show ?thesis by (auto simp: mpsc_producer_send_def split: if_splits)
next
  case op: False
  show ?thesis
  proof (cases "pending_message c \<or> next_waiting_producer_id c \<noteq> - 1")
    case True
    from assms(1) op True obtain i c1 where
      sub: "mpsc_producer_subscribe_to_wait_queue c p = Inr (i, c1)"
      and res: "mpsc_producer_send_resume c1 i d k [Ev_Lock] = Inr (out, c', evs)"
      by (auto simp: mpsc_producer_send_def split: if_splits sum.splits)
    from subscribe_frame [OF sub assms(2)] res op show ?thesis by auto
  next
    case False
    with assms op have "send_deposit c d k [Ev_Lock] = Inr (out, c', evs)"
      by (auto simp: mpsc_producer_send_def split: if_splits)
    from deposit_frame [OF this] op show ?thesis by simp
  qed
qed

lemma handoff_head:
  assumes "handoff_invariant c" and "shape_invariant c" and "next_waiting_producer_id c = int p"
  shows "wait_queue c \<noteq> [] \<and> hd (wait_queue c) = p"
proof -
  from assms(1,3) have w: "0 < n_producers_waiting c"
    and h: "producer_waiting_ids_queue c ! 0 = p"
    by (auto simp: handoff_invariant_def)
  from assms(2) have "n_producers_waiting c \<le> length (producer_waiting_ids_queue c)"
    by (simp add: shape_invariant_def)
  with w h show ?thesis
    by (cases "producer_waiting_ids_queue c") (auto simp: wait_queue_def)
qed

lemma queue_head:
  assumes "shape_invariant c" and "0 < n_producers_waiting c"
  shows "wait_queue c \<noteq> [] \<and> hd (wait_queue c) = producer_waiting_ids_queue c ! 0"
  using assms
  by (cases "producer_waiting_ids_queue c") (auto simp: wait_queue_def shape_invariant_def)

section \<open>The wait queue holds the blocked producers\<close>

lemma waiting_update_task:
  "p < length ts \<Longrightarrow>
     {q. q < length ts \<and> is_waiting (ts[p := PC_Task] ! q)}
       = {q. q < length ts \<and> is_waiting (ts ! q)} - {p}"
  by (auto simp: nth_list_update)

lemma waiting_update_returned:
  "p < length ts \<Longrightarrow>
     {q. q < length ts \<and> is_waiting (ts[p := PC_Returned] ! q)}
       = {q. q < length ts \<and> is_waiting (ts ! q)} - {p}"
  by (auto simp: nth_list_update)

lemma waiting_update_waiting:
  "p < length ts \<Longrightarrow>
     {q. q < length ts \<and> is_waiting (ts[p := PC_Waiting d k] ! q)}
       = insert p {q. q < length ts \<and> is_waiting (ts ! q)}"
  by (auto simp: nth_list_update)

lemma waiting_append_task:
  "{q. q < Suc (length ts) \<and> is_waiting ((ts @ [PC_Task]) ! q)}
     = {q. q < length ts \<and> is_waiting (ts ! q)}"
  by (auto simp: nth_append less_Suc_eq)

lemma queue_frame:
  assumes "queue_invariant s" and "wait_queue c' = wait_queue (chan s)"
    and "closed (chan s) \<longrightarrow> closed c'" and "producer_count c' = producer_count (chan s)"
    and "{q. q < length (threads s) \<and> is_waiting (ts ! q)}
           = {q. q < length (threads s) \<and> is_waiting (threads s ! q)}"
    and "length ts = length (threads s)"
  shows "queue_invariant (s\<lparr>chan := c', threads := ts\<rparr>)"
  using assms by (auto simp: queue_invariant_def)

lemma queue_wake:
  assumes res: "mpsc_producer_send_resume (chan s) p d k e = Inr (out, c', evs)"
    and sh: "shape_invariant (chan s)" and ho: "handoff_invariant (chan s)"
    and q: "queue_invariant s" and p: "p < length (threads s)"
    and w: "threads s ! p = PC_Waiting d k"
  shows "queue_invariant (s\<lparr>chan := c', threads := send_thread_update (threads s) p d k out\<rparr>)"
proof -
  have len: "producer_count c' = producer_count (chan s)" using count_resume [OF res] .
  from resume_cases [OF res sh] consider
      (wait) "out = Send_Wait p" "c' = chan s"
    | (rejected) "closed c'"
    | (elected) "\<not> closed (chan s)" "next_waiting_producer_id (chan s) = int p"
        "out = Send_Return True" "wait_queue c' = tl (wait_queue (chan s))"
    by auto
  then show ?thesis
  proof cases
    case wait
    with w p have "send_thread_update (threads s) p d k out = threads s"
      by (simp add: send_thread_update_def list_update_same_conv)
    with wait q show ?thesis by (simp add: queue_invariant_def)
  next
    case rejected
    with q len show ?thesis by (simp add: queue_invariant_def)
  next
    case elected
    from handoff_head [OF ho sh elected(2)] have
      hd: "wait_queue (chan s) \<noteq> []" "hd (wait_queue (chan s)) = p" by simp_all
    from q elected(1) have d: "distinct (wait_queue (chan s))"
      and st: "set (wait_queue (chan s)) = {q. q < length (threads s) \<and> is_waiting (threads s ! q)}"
      by (simp_all add: queue_invariant_def)
    from hd obtain r where r: "wait_queue (chan s) = p # r"
      by (cases "wait_queue (chan s)") auto
    with d have "distinct r" "p \<notin> set r" by simp_all
    moreover from st r have "set r = {q. q < length (threads s) \<and> is_waiting (threads s ! q)} - {p}"
      using \<open>p \<notin> set r\<close> by auto
    ultimately show ?thesis
      using elected r q len p
      by (simp add: queue_invariant_def send_thread_update_def waiting_update_task)
  qed
qed

lemma queue_send:
  assumes snd: "mpsc_producer_send (chan s) p d k = Inr (out, c', evs)"
    and sh: "shape_invariant (chan s)" and ho: "handoff_invariant (chan s)"
    and q: "queue_invariant s" and p: "p < length (threads s)"
    and t: "threads s ! p = PC_Task"
  shows "queue_invariant (s\<lparr>chan := c', threads := send_thread_update (threads s) p d k out\<rparr>)
     \<and> (out = Send_Wait p \<and> wait_queue c' = wait_queue (chan s) @ [p] \<and> \<not> closed c'
          \<and> next_waiting_producer_id c' = next_waiting_producer_id (chan s)
          \<and> next_waiting_producer_id c' \<noteq> int p
        \<or> (out = Send_Return True \<or> out = Send_Return False)
          \<and> wait_queue c' = wait_queue (chan s)
          \<and> next_waiting_producer_id c' = next_waiting_producer_id (chan s))"
proof -
  have len: "producer_count c' = producer_count (chan s)" using count_send [OF snd] .
  have same: "(threads s)[p := PC_Task] = threads s"
    using t p by (simp add: list_update_same_conv)
  from send_cases [OF snd sh] consider
      (rejected) "closed (chan s)" "out = Send_Return False" "c' = chan s"
    | (direct) "\<not> closed (chan s)" "out = Send_Return True"
        "wait_queue c' = wait_queue (chan s)" "\<not> closed c'"
        "next_waiting_producer_id c' = next_waiting_producer_id (chan s)"
    | (queued) c1 where "\<not> closed (chan s)" "wait_queue c1 = wait_queue (chan s) @ [p]"
        "\<not> closed c1" "next_waiting_producer_id c1 = next_waiting_producer_id (chan s)"
        "shape_invariant c1"
        "mpsc_producer_send_resume c1 p d k [Ev_Lock] = Inr (out, c', evs)"
    by blast
  then show ?thesis
  proof cases
    case rejected
    with q same show ?thesis by (simp add: queue_invariant_def send_thread_update_def)
  next
    case direct
    with q same len show ?thesis by (simp add: queue_invariant_def send_thread_update_def)
  next
    case queued
    from q queued(1) have d: "distinct (wait_queue (chan s))"
      and st: "set (wait_queue (chan s)) = {q. q < length (threads s) \<and> is_waiting (threads s ! q)}"
      by (simp_all add: queue_invariant_def)
    from st t p have notin: "p \<notin> set (wait_queue (chan s))" by auto
    have nn: "next_waiting_producer_id (chan s) \<noteq> int p"
    proof
      assume "next_waiting_producer_id (chan s) = int p"
      from handoff_head [OF ho sh this] have "p \<in> set (wait_queue (chan s))"
        by (cases "wait_queue (chan s)") auto
      with notin show False by simp
    qed
    with queued(4) have n1: "next_waiting_producer_id c1 \<noteq> int p" by simp
    from resume_cases [OF queued(6) queued(5)] queued(3) n1
    have out: "out = Send_Wait p" and c': "c' = c1" by auto
    from d notin st queued q len p out c' nn show ?thesis
      by (simp add: queue_invariant_def send_thread_update_def waiting_update_waiting)
  qed
qed

lemma queue_sys_step:
  assumes step: "sys_step s a = Some (s', l)"
    and sh: "shape_invariant (chan s)" and ho: "handoff_invariant (chan s)"
    and q: "queue_invariant s"
  shows "queue_invariant s'"
proof (cases a)
  case (Act_Register rc cb ctx)
  with step obtain r c evs where
    r: "mpsc_register_producer (chan s) rc cb ctx = Inr (r, c, evs)"
    and s': "s' = s\<lparr>chan := c, threads := (if r = MPSC_REGISTER_PRODUCER_ERROR_NONE
                              then threads s @ [PC_Task] else threads s)\<rparr>"
    by (auto split: sum.splits)
  show ?thesis
  proof (cases "r = MPSC_REGISTER_PRODUCER_ERROR_NONE")
    case True
    with register_frame [OF r] count_register [OF r] q s' show ?thesis
      by (simp add: queue_invariant_def waiting_append_task)
  next
    case False
    with register_frame [OF r] count_register [OF r] q s' show ?thesis
      by (simp add: queue_invariant_def)
  qed
next
  case (Act_Send p d k)
  with step obtain out c evs where
    "mpsc_producer_send (chan s) p d k = Inr (out, c, evs)" "p < length (threads s)"
    "threads s ! p = PC_Task"
    "s' = s\<lparr>chan := c, threads := send_thread_update (threads s) p d k out\<rparr>"
    by (auto split: sum.splits if_splits)
  with queue_send [OF this(1) sh ho q this(2,3)] show ?thesis by simp
next
  case (Act_Wake p)
  with step obtain d k out c evs where
    "mpsc_producer_send_resume (chan s) p d k [Ev_Lock] = Inr (out, c, evs)"
    "p < length (threads s)" "threads s ! p = PC_Waiting d k"
    "s' = s\<lparr>chan := c, threads := send_thread_update (threads s) p d k out\<rparr>"
    by (auto split: sum.splits if_splits thread_pc.splits)
  with queue_wake [OF this(1) sh ho q this(2,3)] show ?thesis by simp
next
  case (Act_Ping p)
  with step q show ?thesis by (auto split: if_splits)
next
  case (Act_Task_Return p)
  with step have p: "p < length (threads s)" "threads s ! p = PC_Task"
    and s': "s' = s\<lparr>chan := fst (mpsc_producer_done (chan s) p),
                threads := (threads s)[p := PC_Returned]\<rparr>"
    by (auto split: if_splits)
  from p have "{q. q < length (threads s) \<and> is_waiting ((threads s)[p := PC_Returned] ! q)}
      = {q. q < length (threads s) \<and> is_waiting (threads s ! q)}"
    by (auto simp: nth_list_update)
  from queue_frame [OF q _ _ _ this] done_frame [of "chan s" p] count_done [of "chan s" p]
  show ?thesis unfolding s' by simp
next
  case (Act_Consume m)
  with step obtain out c evs where
    c: "my_consumer_thread_callback (chan s) m = Inr (out, c, evs)"
    and s': "s' = s\<lparr>chan := c, consumer_exited := (out = Consumer_Exit)\<rparr>"
    by (auto split: sum.splits if_splits)
  from queue_frame [OF q, of c "threads s"] consumer_frame [OF c] count_consumer [OF c]
  have "queue_invariant (s\<lparr>chan := c, threads := threads s\<rparr>)" by simp
  then show ?thesis unfolding s' by (simp add: queue_invariant_def)
next
  case Act_Close
  with step have s': "s' = s\<lparr>chan := fst (mpsc_consumer_close (chan s))\<rparr>" by simp
  from queue_frame [OF q, of "fst (mpsc_consumer_close (chan s))" "threads s"]
    close_frame [of "chan s"] count_close [of "chan s"]
  have "queue_invariant (s\<lparr>chan := fst (mpsc_consumer_close (chan s)), threads := threads s\<rparr>)"
    by simp
  then show ?thesis unfolding s' by (simp add: queue_invariant_def)
next
  case (Act_Join_Enter t)
  with step obtain c evs where c: "mpsc_join_enter (chan s) t = Inr (c, evs)"
    and s': "s' = s\<lparr>chan := c\<rparr>"
    by (auto split: sum.splits)
  from queue_frame [OF q, of c "threads s"] join_enter_frame [OF c] count_join_enter [OF c]
  have "queue_invariant (s\<lparr>chan := c, threads := threads s\<rparr>)" by simp
  then show ?thesis unfolding s' by (simp add: queue_invariant_def)
next
  case Act_Join_Close
  with step have s': "s' = s\<lparr>chan := fst (mpsc_join_close (chan s))\<rparr>"
    by (simp split: if_splits)
  from queue_frame [OF q, of "fst (mpsc_join_close (chan s))" "threads s"]
    join_close_frame [of "chan s"] count_join_close [of "chan s"]
  have "queue_invariant (s\<lparr>chan := fst (mpsc_join_close (chan s)), threads := threads s\<rparr>)"
    by simp
  then show ?thesis unfolding s' by (simp add: queue_invariant_def)
qed

section \<open>Invariants of every reachable state\<close>

lemma system_sys_step:
  assumes "sys_step s a = Some (s', l)" and "system_invariant s"
  shows "system_invariant s'"
proof -
  from assms(2) have sh: "shape_invariant (chan s)" and ho: "handoff_invariant (chan s)"
    and dn: "done_invariant (chan s)" and q: "queue_invariant s"
    by (simp_all add: system_invariant_def)
  from q have len: "length (threads s) = producer_count (chan s)"
    by (simp add: queue_invariant_def)
  from shape_sys_step [OF assms(1) sh] handoff_sys_step [OF assms(1) ho]
    done_sys_step [OF assms(1) dn sh len] queue_sys_step [OF assms(1) sh ho q]
  show ?thesis by (simp add: system_invariant_def)
qed

lemma system_initial:
  assumes "mpsc_create params env = (Create_Ok c, evs)"
  shows "system_invariant (initial_system c)"
  using create_ok [OF assms]
  by (simp add: system_invariant_def initial_system_def shape_invariant_def
      handoff_invariant_def done_invariant_def queue_invariant_def wait_queue_def)

lemma system_exec:
  assumes "system_invariant s" and "exec s as = Some (s', ls)"
  shows "system_invariant s'"
  using exec_invariant [where P = system_invariant, OF _ assms] system_sys_step by blast

lemma exec_cons_label:
  assumes "exec s as = Some (s', l # ls)"
  shows "\<exists>a as' s1. as = a # as' \<and> sys_step s a = Some (s1, l) \<and> exec s1 as' = Some (s', ls)"
proof (cases as)
  case Nil
  with assms show ?thesis by simp
next
  case (Cons a as')
  with assms show ?thesis by (auto split: option.splits)
qed

lemma exec_append_labels:
  "exec s as = Some (s', ls1 @ ls2) \<Longrightarrow>
     \<exists>sm as1 as2. exec s as1 = Some (sm, ls1) \<and> exec sm as2 = Some (s', ls2)"
proof (induction ls1 arbitrary: s as)
  case Nil
  then have "exec s [] = Some (s, []) \<and> exec s as = Some (s', ls2)" by simp
  then show ?case by blast
next
  case (Cons l ls1)
  from Cons.prems have "exec s as = Some (s', l # (ls1 @ ls2))" by simp
  from exec_cons_label [OF this] obtain a as' s1 where
    a: "sys_step s a = Some (s1, l)" and r: "exec s1 as' = Some (s', ls1 @ ls2)" by blast
  from Cons.IH [OF r] obtain sm as1 as2 where
    m: "exec s1 as1 = Some (sm, ls1)" "exec sm as2 = Some (s', ls2)" by blast
  from a m(1) have "exec s (a # as1) = Some (sm, l # ls1)" by simp
  with m(2) show ?case by blast
qed

lemma exec_last_label:
  assumes "exec s as = Some (s', [l])"
  shows "\<exists>a. sys_step s a = Some (s', l)"
proof -
  from exec_cons_label [OF assms] obtain a as' s1 where
    a: "sys_step s a = Some (s1, l)" and r: "exec s1 as' = Some (s', [])" by blast
  from r have "s1 = s'" by (cases as') (auto split: option.splits)
  with a show ?thesis by blast
qed

lemma served_append: "served a ph (ls1 @ ls2) = served a (served a ph ls1) ls2"
  by (induction ls1 arbitrary: ph) simp_all

lemma served_two [simp]: "served a 2 ls = 2"
  by (induction ls) (simp_all add: phase_step_def)

lemma served_from_one:
  "served a (Suc 0) ls = 2 \<Longrightarrow> \<exists>v w. ls = v @ L_Wake a (Send_Return True) # w"
proof (induction ls)
  case Nil
  then show ?case by simp
next
  case (Cons l ls)
  show ?case
  proof (cases "l = L_Wake a (Send_Return True)")
    case True
    then have "l # ls = [] @ L_Wake a (Send_Return True) # ls" by simp
    then show ?thesis by blast
  next
    case False
    with Cons.prems have "served a (Suc 0) ls = 2" by (simp add: phase_step_def)
    from Cons.IH [OF this] obtain v w where "ls = v @ L_Wake a (Send_Return True) # w" by blast
    then have "l # ls = (l # v) @ L_Wake a (Send_Return True) # w" by simp
    then show ?thesis by blast
  qed
qed

lemma served_from_zero:
  "served a 0 ls = 2 \<Longrightarrow>
     \<exists>u le v w. ls = u @ le # v @ L_Wake a (Send_Return True) # w \<and> elects le a"
proof (induction ls)
  case Nil
  then show ?case by simp
next
  case (Cons l ls)
  show ?case
  proof (cases "elects l a")
    case True
    with Cons.prems have "served a (Suc 0) ls = 2" by (simp add: phase_step_def)
    from served_from_one [OF this] obtain v w where "ls = v @ L_Wake a (Send_Return True) # w"
      by blast
    with True have "l # ls = [] @ l # v @ L_Wake a (Send_Return True) # w \<and> elects l a" by simp
    then show ?thesis by blast
  next
    case False
    with Cons.prems have "served a 0 ls = 2" by (simp add: phase_step_def)
    from Cons.IH [OF this] obtain u le v w where
      "ls = u @ le # v @ L_Wake a (Send_Return True) # w" "elects le a" by blast
    then have "l # ls = (l # u) @ le # v @ L_Wake a (Send_Return True) # w \<and> elects le a"
      by simp
    then show ?thesis by blast
  qed
qed

section \<open>First in, first out\<close>

lemma step_summary:
  assumes inv: "system_invariant s" and step: "sys_step s act = Some (s', l)"
  obtains
    (quiet) "wait_queue (chan s') = wait_queue (chan s)"
      "next_waiting_producer_id (chan s') = next_waiting_producer_id (chan s)"
      "\<And>x. \<not> elects l x" "\<And>x. l \<noteq> L_Wake x (Send_Return True)"
      "\<And>x. l \<noteq> L_Send x (Send_Wait x)"
  | (enqueue) p where "l = L_Send p (Send_Wait p)"
      "wait_queue (chan s') = wait_queue (chan s) @ [p]"
      "next_waiting_producer_id (chan s') = next_waiting_producer_id (chan s)"
      "next_waiting_producer_id (chan s) \<noteq> int p"
  | (handoff) p where "l = L_Wake p (Send_Return True)"
      "wait_queue (chan s) = p # wait_queue (chan s')" "distinct (wait_queue (chan s))"
      "next_waiting_producer_id (chan s) = int p"
      "next_waiting_producer_id (chan s') = - 1"
  | (elect) h where "\<And>x. elects l x \<longleftrightarrow> x = h" "\<And>x. l \<noteq> L_Wake x (Send_Return True)"
      "wait_queue (chan s') = wait_queue (chan s)" "hd (wait_queue (chan s)) = h"
      "wait_queue (chan s) \<noteq> []" "distinct (wait_queue (chan s))"
      "next_waiting_producer_id (chan s') = int h"
proof -
  from inv have sh: "shape_invariant (chan s)" and ho: "handoff_invariant (chan s)"
    and q: "queue_invariant s"
    by (simp_all add: system_invariant_def)
  show thesis
  proof (cases act)
    case (Act_Register rc cb ctx)
    with step obtain r c evs where
      r: "mpsc_register_producer (chan s) rc cb ctx = Inr (r, c, evs)"
      and s': "chan s' = c" "l = L_Register r"
      by (auto split: sum.splits)
    from register_frame [OF r] s' show ?thesis by (intro quiet) simp_all
  next
    case (Act_Send p d k)
    with step obtain out c evs where
      snd: "mpsc_producer_send (chan s) p d k = Inr (out, c, evs)" and p: "p < length (threads s)"
      and t: "threads s ! p = PC_Task"
      and s': "chan s' = c" "l = L_Send p out"
      by (auto split: sum.splits if_splits)
    from queue_send [OF snd sh ho q p t] consider
        "out = Send_Wait p" "wait_queue c = wait_queue (chan s) @ [p]"
        "next_waiting_producer_id c = next_waiting_producer_id (chan s)"
        "next_waiting_producer_id c \<noteq> int p"
      | "out = Send_Return True \<or> out = Send_Return False"
        "wait_queue c = wait_queue (chan s)"
        "next_waiting_producer_id c = next_waiting_producer_id (chan s)"
      by blast
    then show ?thesis
    proof cases
      case 1
      with s' show ?thesis by (intro enqueue [of p]) simp_all
    next
      case 2
      with s' show ?thesis by (intro quiet) auto
    qed
  next
    case (Act_Wake p)
    with step obtain d k out c evs where
      res: "mpsc_producer_send_resume (chan s) p d k [Ev_Lock] = Inr (out, c, evs)"
      and s': "chan s' = c" "l = L_Wake p out"
      by (auto split: sum.splits if_splits thread_pc.splits)
    from resume_cases [OF res sh] consider
        "out \<noteq> Send_Return True" "c = chan s"
      | "\<not> closed (chan s)" "next_waiting_producer_id (chan s) = int p"
        "out = Send_Return True" "wait_queue c = tl (wait_queue (chan s))"
        "next_waiting_producer_id c = - 1"
      by auto
    then show ?thesis
    proof cases
      case 1
      with s' show ?thesis by (intro quiet) simp_all
    next
      case 2
      from handoff_head [OF ho sh 2(2)] 2(4)
      have w: "wait_queue (chan s) = p # wait_queue c"
        by (cases "wait_queue (chan s)") auto
      from q 2(1) have "distinct (wait_queue (chan s))" by (simp add: queue_invariant_def)
      with 2 w s' show ?thesis by (intro handoff [of p]) simp_all
    qed
  next
    case (Act_Ping p)
    with step show ?thesis by (intro quiet) (auto split: if_splits)
  next
    case (Act_Task_Return p)
    with step have "chan s' = fst (mpsc_producer_done (chan s) p)" "l = L_Task_Return p"
      by (auto split: if_splits)
    with done_frame [of "chan s" p] show ?thesis by (intro quiet) simp_all
  next
    case (Act_Consume m)
    with step obtain out c evs where
      c: "my_consumer_thread_callback (chan s) m = Inr (out, c, evs)"
      and s': "chan s' = c" "l = L_Consume out evs"
      by (auto split: sum.splits if_splits)
    from consumer_frame [OF c] have wq: "wait_queue c = wait_queue (chan s)" by simp
    from consumer_frame [OF c] consider
        "next_waiting_producer_id c = next_waiting_producer_id (chan s)"
        "\<forall>x. Ev_Signal (Producer_CV x) \<notin> set evs"
      | "\<not> closed (chan s)" "0 < n_producers_waiting (chan s)"
        "next_waiting_producer_id c = int (producer_waiting_ids_queue (chan s) ! 0)"
        "\<forall>x. Ev_Signal (Producer_CV x) \<in> set evs
                    \<longleftrightarrow> x = producer_waiting_ids_queue (chan s) ! 0"
      by (elim conjE disjE) simp_all
    then show ?thesis
    proof cases
      case 1
      with s' wq show ?thesis by (intro quiet) simp_all
    next
      case 2
      from q 2(1) have "distinct (wait_queue (chan s))" by (simp add: queue_invariant_def)
      with 2 s' wq queue_head [OF sh 2(2)] show ?thesis
        by (intro elect [of "producer_waiting_ids_queue (chan s) ! 0"]) simp_all
    qed
  next
    case Act_Close
    with step close_frame [of "chan s"] show ?thesis by (intro quiet) auto
  next
    case (Act_Join_Enter t)
    with step obtain c evs where c: "mpsc_join_enter (chan s) t = Inr (c, evs)"
      and s': "chan s' = c" "l = L_Join_Enter"
      by (auto split: sum.splits)
    from join_enter_frame [OF c] s' show ?thesis by (intro quiet) simp_all
  next
    case Act_Join_Close
    with step join_close_frame [of "chan s"] show ?thesis
      by (intro quiet) (auto split: if_splits)
  qed
qed

lemma phase_sys_step:
  assumes inv: "system_invariant s" and step: "sys_step s act = Some (s', l)"
    and ph: "phase_invariant a ph s"
  shows "phase_invariant a (phase_step a ph l) s'"
proof (cases "2 \<le> ph")
  case True
  then show ?thesis by (simp add: phase_invariant_def phase_step_def)
next
  case False
  with ph have a: "a \<in> set (wait_queue (chan s))"
    and n: "next_waiting_producer_id (chan s) = int a \<longleftrightarrow> ph = 1"
    by (simp_all add: phase_invariant_def)
  from inv step show ?thesis
  proof (cases rule: step_summary)
    case quiet
    with a n show ?thesis by (simp add: phase_invariant_def phase_step_def)
  next
    case (enqueue p)
    with a n show ?thesis by (simp add: phase_invariant_def phase_step_def)
  next
    case (handoff p)
    show ?thesis
    proof (cases "p = a")
      case True
      with handoff n show ?thesis by (simp add: phase_invariant_def phase_step_def)
    next
      case False
      with handoff a n show ?thesis by (auto simp: phase_invariant_def phase_step_def)
    qed
  next
    case (elect h)
    from inv have "handoff_invariant (chan s)" "shape_invariant (chan s)"
      by (simp_all add: system_invariant_def)
    from handoff_head [OF this] elect(4)
    have "next_waiting_producer_id (chan s) = int a \<Longrightarrow> h = a" by simp
    with elect a n False show ?thesis
      by (auto simp: phase_invariant_def phase_step_def)
  qed
qed

lemma precedes_snoc: "precedes a b q \<Longrightarrow> precedes a b (q @ [p])"
  unfolding precedes_def by (metis append_Cons append_assoc)

lemma member_precedes_snoc: "a \<in> set q \<Longrightarrow> precedes a b (q @ [b])"
proof -
  assume "a \<in> set q"
  then obtain xs ys where "q = xs @ a # ys" by (auto simp: in_set_conv_decomp)
  then have "q @ [b] = xs @ a # ys @ b # []" by simp
  then show ?thesis unfolding precedes_def by blast
qed

lemma precedes_head: "precedes a b q \<Longrightarrow> distinct q \<Longrightarrow> hd q \<noteq> b"
  unfolding precedes_def by (auto simp: hd_append split: if_splits)

lemma precedes_tail: "precedes a b (p # q) \<Longrightarrow> p \<noteq> a \<Longrightarrow> precedes a b q"
  unfolding precedes_def by (auto simp: Cons_eq_append_conv)

lemma precedes_sys_step:
  assumes inv: "system_invariant s" and step: "sys_step s act = Some (s', l)"
    and pr: "precedes a b (wait_queue (chan s))"
  shows "l \<noteq> L_Wake b (Send_Return True) \<and> \<not> elects l b
     \<and> (precedes a b (wait_queue (chan s')) \<or> l = L_Wake a (Send_Return True))"
  using inv step
proof (cases rule: step_summary)
  case quiet
  with pr show ?thesis by simp
next
  case (enqueue p)
  with pr show ?thesis by (simp add: precedes_snoc)
next
  case (handoff p)
  from precedes_head [OF pr handoff(3)] handoff(2) have "p \<noteq> b" by auto
  moreover from pr handoff(2) have "p \<noteq> a \<Longrightarrow> precedes a b (wait_queue (chan s'))"
    by (auto intro: precedes_tail)
  ultimately show ?thesis using handoff by auto
next
  case (elect h)
  from precedes_head [OF pr elect(6)] elect(4) have "h \<noteq> b" by auto
  with elect pr show ?thesis by simp
qed

lemma served_bound: "ph \<le> 2 \<Longrightarrow> served a ph ls \<le> 2"
  by (induction ls arbitrary: ph) (simp_all add: phase_step_def)

lemma phase_exec:
  "system_invariant s \<Longrightarrow> phase_invariant a ph s \<Longrightarrow> exec s as = Some (s', ls)
     \<Longrightarrow> phase_invariant a (served a ph ls) s'"
proof (induction as arbitrary: s ph ls)
  case Nil
  then show ?case by simp
next
  case (Cons act as)
  from Cons.prems(3) obtain s1 l ls1 where
    a: "sys_step s act = Some (s1, l)" and r: "exec s1 as = Some (s', ls1)"
    and ls: "ls = l # ls1"
    by (auto split: option.splits)
  from Cons.IH [OF system_sys_step [OF a Cons.prems(1)]
      phase_sys_step [OF Cons.prems(1) a Cons.prems(2)] r] ls
  show ?case by simp
qed

lemma overtaking_exec:
  "system_invariant s \<Longrightarrow> phase_invariant a ph s
     \<Longrightarrow> ph < 2 \<longrightarrow> precedes a b (wait_queue (chan s))
     \<Longrightarrow> exec s as = Some (s', ls)
     \<Longrightarrow> served a ph ls < 2 \<longrightarrow> precedes a b (wait_queue (chan s'))"
proof (induction as arbitrary: s ph ls)
  case Nil
  then show ?case by simp
next
  case (Cons act as)
  from Cons.prems(4) obtain s1 l ls1 where
    a: "sys_step s act = Some (s1, l)" and r: "exec s1 as = Some (s', ls1)"
    and ls: "ls = l # ls1"
    by (auto split: option.splits)
  have "phase_step a ph l < 2 \<longrightarrow> precedes a b (wait_queue (chan s1))"
  proof
    assume less: "phase_step a ph l < 2"
    then have ph: "ph < 2" by (auto simp: phase_step_def split: if_splits)
    with Cons.prems(3) have pr: "precedes a b (wait_queue (chan s))" by simp
    from precedes_sys_step [OF Cons.prems(1) a pr]
    have "precedes a b (wait_queue (chan s1)) \<or> l = L_Wake a (Send_Return True)" by simp
    moreover have "l \<noteq> L_Wake a (Send_Return True)"
    proof
      assume w: "l = L_Wake a (Send_Return True)"
      with less have "ph = 0" by (auto simp: phase_step_def split: if_splits)
      with Cons.prems(2) have n: "next_waiting_producer_id (chan s) \<noteq> int a"
        by (simp add: phase_invariant_def)
      from Cons.prems(1) a show False
      proof (cases rule: step_summary)
        case quiet
        with w show ?thesis by simp
      next
        case (enqueue p)
        with w show ?thesis by simp
      next
        case (handoff p)
        with w n show ?thesis by simp
      next
        case (elect h)
        with w show ?thesis by simp
      qed
    qed
    ultimately show "precedes a b (wait_queue (chan s1))" by simp
  qed
  from Cons.IH [OF system_sys_step [OF a Cons.prems(1)]
      phase_sys_step [OF Cons.prems(1) a Cons.prems(2)] this r] ls
  show ?case by simp
qed

section \<open>Construction failures\<close>



lemma cond_init_loop_out_of_bounds:
  "\<forall>j<cells. rcs j = None \<Longrightarrow> cells < m \<Longrightarrow> k \<le> cells
     \<Longrightarrow> cond_init_loop rcs h e cells k m = Init_Out_Of_Bounds cells"
proof (induction rcs h e cells k m rule: cond_init_loop.induct)
  case (1 rcs h e cells k m)
  show ?case
  proof (cases "k = cells")
    case True
    with "1.prems" show ?thesis by (subst cond_init_loop.simps) simp
  next
    case False
    with "1.prems" have lt: "k < cells" by simp
    with "1.prems" have "rcs k = None" by simp
    with lt "1.prems" "1.IH" [of "(True, e)" True e] show ?thesis
      by (subst cond_init_loop.simps) (simp add: my_condition_variable_init_def)
  qed
qed

lemma map_undo_cond_init [simp]:
  "map undo (map (\<lambda>j. Ev_Cond_Init (Producer_CV j)) xs)
     = map (\<lambda>j. Ev_Cond_Destroy (Producer_CV j)) xs"
  by (induction xs) simp_all

lemma filter_cond_init [simp]:
  "filter is_acquisition (map (\<lambda>j. Ev_Cond_Init (Producer_CV j)) xs)
     = map (\<lambda>j. Ev_Cond_Init (Producer_CV j)) xs"
  "filter is_release (map (\<lambda>j. Ev_Cond_Init (Producer_CV j)) xs) = []"
  "filter is_release (map (\<lambda>j. Ev_Cond_Destroy (Producer_CV j)) xs)
     = map (\<lambda>j. Ev_Cond_Destroy (Producer_CV j)) xs"
  "filter is_acquisition (map (\<lambda>j. Ev_Cond_Destroy (Producer_CV j)) xs) = []"
  by (induction xs) simp_all


lemma create_allocations:
  assumes "mpsc_create_params_validate params = None"
    and "env_malloc_self env (env_sizeof_mpsc_t env) = Malloc_Ptr a"
    and "env_malloc_buffer env (params_buffer_size params) = Malloc_Ptr b"
    and "env_malloc_producer_thread_ids env
           (size_mul env (env_sizeof_pthread_t env) (params_n_max_producers params))
           = Malloc_Ptr t"
    and "env_malloc_producers env
           (size_mul env (env_sizeof_mpsc_producer_t env) (params_n_max_producers params))
           = Malloc_Ptr p"
    and "env_malloc_producer_condition_variables env
           (size_mul env (env_sizeof_pthread_cond_t env) (params_n_max_producers params))
           = Malloc_Ptr c"
    and "env_malloc_producer_waiting_ids_queue env
           (size_mul env (env_sizeof_size_t env) (params_n_max_producers params))
           = Malloc_Ptr q"
  shows "mpsc_create params env
          = create_sync params env
              (a, (fresh_struct params env)\<lparr>alloc_buffer := Some b,
                    alloc_producer_thread_ids := Some t, alloc_producers := Some p,
                    alloc_producer_condition_variables := Some c,
                    alloc_producer_condition_variables_cells :=
                      array_cells env (env_sizeof_pthread_cond_t env)
                        (params_n_max_producers params),
                    alloc_producer_waiting_ids_queue := Some q\<rparr>)
              (env_errno env) (map Ev_Malloc [a, b, t, p, c, q])"
  using assms
  by (simp add: mpsc_create_def create_alloc_buffer_def create_alloc_thread_ids_def
        create_alloc_producers_def create_alloc_condition_variables_def
        create_alloc_queue_def my_malloc_def)


section \<open>Evaluating the example\<close>

lemma example_create:
  "mpsc_create example_params example_env = (Create_Ok example_channel, example_create_events)"
  by code_simp

lemma example_exec:
  "map_option snd (exec (initial_system example_channel) example_run) = Some example_labels"
  by code_simp

lemma example_registered_exec:
  "exec (initial_system example_channel) [Act_Register None 5 6]
     = Some (\<lparr>chan = example_registered, threads = [PC_Task], consumer_exited = False\<rparr>,
             [L_Register MPSC_REGISTER_PRODUCER_ERROR_NONE])"
  by code_simp

section \<open>What \<^verbatim>\<open>mpsc_producer_send\<close> returns\<close>

lemma take_memcpy: "k \<le> length src \<Longrightarrow> take k (memcpy dst src k) = take k src"
  by (simp add: memcpy_def)

lemma send_deposit_deposited:
  "k \<le> length data \<Longrightarrow> send_deposit s data k evs = Inr (out, s', evs')
     \<Longrightarrow> out = Send_Return True \<and> deposited s' evs' data k"
  by (auto simp: send_deposit_def deposited_def take_memcpy)

lemma resume_result:
  assumes "k \<le> length data"
    and "mpsc_producer_send_resume s i data k [Ev_Lock] = Inr (out, s', evs)"
  shows "(out = Send_Return False \<longleftrightarrow> closed s)
       \<and> (out = Send_Return True \<longleftrightarrow> deposited s' evs data k)"
  using assms
  by (auto simp: mpsc_producer_send_resume_def deposited_def split: if_splits sum.splits
      dest: send_deposit_deposited)

lemma subscribe_closed:
  "mpsc_producer_subscribe_to_wait_queue s p = Inr (i, s') \<Longrightarrow> closed s' = closed s"
  by (auto simp: mpsc_producer_subscribe_to_wait_queue_def split: option.splits if_splits)

lemma send_result:
  assumes "k \<le> length data"
    and "mpsc_producer_send s p data k = Inr (out, s', evs)"
  shows "(out = Send_Return False \<longleftrightarrow> closed s)
       \<and> (out = Send_Return True \<longleftrightarrow> deposited s' evs data k)"
proof (cases "closed s")
  case True
  with assms show ?thesis
    by (auto simp: mpsc_producer_send_def deposited_def split: if_splits)
next
  case False
  show ?thesis
  proof (cases "pending_message s \<or> next_waiting_producer_id s \<noteq> - 1")
    case wait: True
    from assms(2) False wait obtain i s1 where
      sub: "mpsc_producer_subscribe_to_wait_queue s p = Inr (i, s1)"
      and res: "mpsc_producer_send_resume s1 i data k [Ev_Lock] = Inr (out, s', evs)"
      by (auto simp: mpsc_producer_send_def split: if_splits sum.splits)
    from resume_result [OF assms(1) res] subscribe_closed [OF sub] False
    show ?thesis by simp
  next
    case direct: False
    with assms False have "send_deposit s data k [Ev_Lock] = Inr (out, s', evs)"
      by (auto simp: mpsc_producer_send_def split: if_splits)
    from send_deposit_deposited [OF assms(1) this] False show ?thesis by simp
  qed
qed

lemma send_closed:
  "k \<le> buffer_size s \<Longrightarrow> closed s
     \<Longrightarrow> mpsc_producer_send s p data k = Inr (Send_Return False, s, [Ev_Lock, Ev_Unlock])"
  by (simp add: mpsc_producer_send_def)

lemma resume_closed:
  "closed s
     \<Longrightarrow> mpsc_producer_send_resume s p data k [Ev_Lock]
           = Inr (Send_Return False, s, [Ev_Lock, Ev_Unlock])"
  by (simp add: mpsc_producer_send_resume_def)

lemma send_free_slot:
  assumes "k \<le> buffer_size s" and "k \<le> length data"
    and "\<not> closed s" and "\<not> pending_message s" and "next_waiting_producer_id s = - 1"
  shows "\<exists>s'. mpsc_producer_send s p data k
                 = Inr (Send_Return True, s', [Ev_Lock, Ev_Signal Main_CV, Ev_Unlock])
              \<and> deposited s' [Ev_Lock, Ev_Signal Main_CV, Ev_Unlock] data k
              \<and> wait_queue s' = wait_queue s
              \<and> next_waiting_producer_id s' = - 1 \<and> \<not> closed s'"
  using assms
  by (simp add: mpsc_producer_send_def send_deposit_def deposited_def wait_queue_def
        take_memcpy)

lemma resume_elected:
  assumes "k \<le> length data"
    and "\<not> closed s" and "next_waiting_producer_id s = int p"
    and "0 < n_producers_waiting s" and "shape_invariant s"
  shows "\<exists>s'. mpsc_producer_send_resume s p data k [Ev_Lock]
                 = Inr (Send_Return True, s', [Ev_Lock, Ev_Signal Main_CV, Ev_Unlock])
              \<and> deposited s' [Ev_Lock, Ev_Signal Main_CV, Ev_Unlock] data k
              \<and> wait_queue s' = tl (wait_queue s)
              \<and> next_waiting_producer_id s' = - 1 \<and> \<not> closed s'"
proof -
  from assms(4) obtain s1 where sh: "mpsc_shift_producer_wait_queue s = Inr s1"
    by (simp add: mpsc_shift_producer_wait_queue_def)
  obtain s' where dep: "send_deposit s1 data k [Ev_Lock]
      = Inr (Send_Return True, s', [Ev_Lock, Ev_Signal Main_CV, Ev_Unlock])"
    by (simp add: send_deposit_def)
  from assms(2,3) sh dep have r: "mpsc_producer_send_resume s p data k [Ev_Lock]
      = Inr (Send_Return True, s', [Ev_Lock, Ev_Signal Main_CV, Ev_Unlock])"
    by (simp add: mpsc_producer_send_resume_def)
  from shift_frame [OF sh assms(5)] deposit_frame [OF dep]
    send_deposit_deposited [OF assms(1) dep] assms(2) r
  show ?thesis by simp
qed

lemma resume_not_elected:
  "\<not> closed s \<Longrightarrow> next_waiting_producer_id s \<noteq> int p
     \<Longrightarrow> mpsc_producer_send_resume s p data k [Ev_Lock]
           = Inr (Send_Wait p, s, [Ev_Lock, Ev_Wait (Producer_CV p)])"
  by (simp add: mpsc_producer_send_resume_def)

lemma send_busy_slot:
  assumes "k \<le> buffer_size s"
    and "\<not> closed s" and "pending_message s \<or> next_waiting_producer_id s \<noteq> - 1"
    and "next_waiting_producer_id s \<noteq> int p"
    and "p < n_max_producers s" and "n_producers_waiting s < n_max_producers s"
    and "shape_invariant s"
  shows "\<exists>s'. mpsc_producer_send s p data k
                 = Inr (Send_Wait p, s', [Ev_Lock, Ev_Wait (Producer_CV p)])
              \<and> wait_queue s' = wait_queue s @ [p]
              \<and> buffer s' = buffer s \<and> msg_n s' = msg_n s
              \<and> pending_message s' = pending_message s
              \<and> next_waiting_producer_id s' = next_waiting_producer_id s \<and> \<not> closed s'"
proof -
  from assms(5,6) obtain s1 where
    sub: "mpsc_producer_subscribe_to_wait_queue s p = Inr (p, s1)"
    by (simp add: mpsc_producer_subscribe_to_wait_queue_def find_index)
  from sub have f: "buffer s1 = buffer s" "msg_n s1 = msg_n s"
    "pending_message s1 = pending_message s"
    by (auto simp: mpsc_producer_subscribe_to_wait_queue_def split: option.splits if_splits)
  from subscribe_frame [OF sub assms(7)] assms(2,4)
  have "mpsc_producer_send_resume s1 p data k [Ev_Lock]
          = Inr (Send_Wait p, s1, [Ev_Lock, Ev_Wait (Producer_CV p)])"
    by (intro resume_not_elected) simp_all
  with assms(1,2,3) sub have "mpsc_producer_send s p data k
          = Inr (Send_Wait p, s1, [Ev_Lock, Ev_Wait (Producer_CV p)])"
    by (auto simp: mpsc_producer_send_def)
  with subscribe_frame [OF sub assms(7)] assms(2) f show ?thesis by simp
qed

text \<open>
  C1. Take a call of \<^verbatim>\<open>mpsc_producer_send\<close> by producer \<open>p\<close> with \<open>k \<le> buffer_size\<close>
  bytes, of which \<open>data\<close> holds at least \<open>k\<close>. In the critical section that starts the
  call, and in every critical section that follows a return from the wait on the
  producer's own condition variable, the call returns false exactly when the channel is
  closed at that moment, and it returns true exactly when the first \<open>k\<close> bytes of the
  slot are those of \<open>data\<close>, \<^verbatim>\<open>n\<close> is \<open>k\<close>, \<^verbatim>\<open>pending_message\<close> is set and the main
  condition variable has been signalled. What happens is decided by the channel as the
  critical section finds it:

    \<^item> closed: the call returns false and the channel is unchanged;
    \<^item> at entry, open with the slot free and no producer elected: the message is
      deposited, the main condition variable signalled and the call returns true, the
      wait queue unchanged;
    \<^item> at entry, open with the slot taken or a producer elected: \<open>p\<close> is appended to the
      wait queue and the thread waits on its condition variable, the slot unchanged;
    \<^item> after a wait, open and \<open>p\<close> elected: \<open>p\<close> leaves the head of the wait queue, no
      producer is elected any more, the message is deposited, the main condition
      variable signalled and the call returns true;
    \<^item> after a wait, open and \<open>p\<close> not elected: the thread waits again, the channel
      unchanged.
\<close>

theorem send_return_value:
  assumes "k \<le> buffer_size s" and "k \<le> length data"
  shows "((\<exists>s' evs. mpsc_producer_send s p data k = Inr (Send_Return False, s', evs))
            \<longleftrightarrow> closed s)
       \<and> ((\<exists>s' evs. mpsc_producer_send_resume s p data k [Ev_Lock]
                       = Inr (Send_Return False, s', evs)) \<longleftrightarrow> closed s)
       \<and> (\<forall>out s' evs.
             mpsc_producer_send s p data k = Inr (out, s', evs)
             \<or> mpsc_producer_send_resume s p data k [Ev_Lock] = Inr (out, s', evs)
             \<longrightarrow> (out = Send_Return True \<longleftrightarrow> deposited s' evs data k))
       \<and> (closed s \<longrightarrow>
             mpsc_producer_send s p data k = Inr (Send_Return False, s, [Ev_Lock, Ev_Unlock])
             \<and> mpsc_producer_send_resume s p data k [Ev_Lock]
                 = Inr (Send_Return False, s, [Ev_Lock, Ev_Unlock]))
       \<and> (\<not> closed s \<and> \<not> pending_message s \<and> next_waiting_producer_id s = - 1 \<longrightarrow>
             (\<exists>s'. mpsc_producer_send s p data k
                      = Inr (Send_Return True, s', [Ev_Lock, Ev_Signal Main_CV, Ev_Unlock])
                   \<and> deposited s' [Ev_Lock, Ev_Signal Main_CV, Ev_Unlock] data k
                   \<and> wait_queue s' = wait_queue s
                   \<and> next_waiting_producer_id s' = - 1 \<and> \<not> closed s'))
       \<and> (\<not> closed s \<and> (pending_message s \<or> next_waiting_producer_id s \<noteq> - 1)
            \<and> next_waiting_producer_id s \<noteq> int p
            \<and> p < n_max_producers s \<and> n_producers_waiting s < n_max_producers s
            \<and> shape_invariant s \<longrightarrow>
             (\<exists>s'. mpsc_producer_send s p data k
                      = Inr (Send_Wait p, s', [Ev_Lock, Ev_Wait (Producer_CV p)])
                   \<and> wait_queue s' = wait_queue s @ [p]
                   \<and> buffer s' = buffer s \<and> msg_n s' = msg_n s
                   \<and> pending_message s' = pending_message s
                   \<and> next_waiting_producer_id s' = next_waiting_producer_id s
                   \<and> \<not> closed s'))
       \<and> (\<not> closed s \<and> next_waiting_producer_id s = int p \<and> 0 < n_producers_waiting s
            \<and> shape_invariant s \<longrightarrow>
             (\<exists>s'. mpsc_producer_send_resume s p data k [Ev_Lock]
                      = Inr (Send_Return True, s', [Ev_Lock, Ev_Signal Main_CV, Ev_Unlock])
                   \<and> deposited s' [Ev_Lock, Ev_Signal Main_CV, Ev_Unlock] data k
                   \<and> wait_queue s' = tl (wait_queue s)
                   \<and> next_waiting_producer_id s' = - 1 \<and> \<not> closed s'))
       \<and> (\<not> closed s \<and> next_waiting_producer_id s \<noteq> int p \<longrightarrow>
             mpsc_producer_send_resume s p data k [Ev_Lock]
               = Inr (Send_Wait p, s, [Ev_Lock, Ev_Wait (Producer_CV p)]))"
proof (intro conjI allI impI)
  show "(\<exists>s' evs. mpsc_producer_send s p data k = Inr (Send_Return False, s', evs)) \<longleftrightarrow> closed s"
  proof
    assume "\<exists>s' evs. mpsc_producer_send s p data k = Inr (Send_Return False, s', evs)"
    then obtain s' evs where "mpsc_producer_send s p data k = Inr (Send_Return False, s', evs)"
      by blast
    from send_result [OF assms(2) this] show "closed s" by simp
  next
    assume "closed s"
    from send_closed [OF assms(1) this]
    show "\<exists>s' evs. mpsc_producer_send s p data k = Inr (Send_Return False, s', evs)"
      by blast
  qed
next
  show "(\<exists>s' evs. mpsc_producer_send_resume s p data k [Ev_Lock]
                     = Inr (Send_Return False, s', evs)) \<longleftrightarrow> closed s"
  proof
    assume "\<exists>s' evs. mpsc_producer_send_resume s p data k [Ev_Lock]
                       = Inr (Send_Return False, s', evs)"
    then obtain s' evs where
      "mpsc_producer_send_resume s p data k [Ev_Lock] = Inr (Send_Return False, s', evs)"
      by blast
    from resume_result [OF assms(2) this] show "closed s" by simp
  next
    assume "closed s"
    from resume_closed [OF this]
    show "\<exists>s' evs. mpsc_producer_send_resume s p data k [Ev_Lock]
                         = Inr (Send_Return False, s', evs)"
      by blast
  qed
next
  fix out s' evs
  assume "mpsc_producer_send s p data k = Inr (out, s', evs)
          \<or> mpsc_producer_send_resume s p data k [Ev_Lock] = Inr (out, s', evs)"
  then show "out = Send_Return True \<longleftrightarrow> deposited s' evs data k"
    using send_result [OF assms(2)] resume_result [OF assms(2)] by blast
next
  assume "closed s"
  from send_closed [OF assms(1) this]
  show "mpsc_producer_send s p data k = Inr (Send_Return False, s, [Ev_Lock, Ev_Unlock])" .
next
  assume "closed s"
  from resume_closed [OF this]
  show "mpsc_producer_send_resume s p data k [Ev_Lock]
          = Inr (Send_Return False, s, [Ev_Lock, Ev_Unlock])" .
next
  assume "\<not> closed s \<and> \<not> pending_message s \<and> next_waiting_producer_id s = - 1"
  with assms
  show "\<exists>s'. mpsc_producer_send s p data k
                 = Inr (Send_Return True, s', [Ev_Lock, Ev_Signal Main_CV, Ev_Unlock])
              \<and> deposited s' [Ev_Lock, Ev_Signal Main_CV, Ev_Unlock] data k
              \<and> wait_queue s' = wait_queue s
              \<and> next_waiting_producer_id s' = - 1 \<and> \<not> closed s'"
    by (intro send_free_slot) simp_all
next
  assume "\<not> closed s \<and> (pending_message s \<or> next_waiting_producer_id s \<noteq> - 1)
            \<and> next_waiting_producer_id s \<noteq> int p
            \<and> p < n_max_producers s \<and> n_producers_waiting s < n_max_producers s
            \<and> shape_invariant s"
  with assms(1)
  show "\<exists>s'. mpsc_producer_send s p data k
                 = Inr (Send_Wait p, s', [Ev_Lock, Ev_Wait (Producer_CV p)])
              \<and> wait_queue s' = wait_queue s @ [p]
              \<and> buffer s' = buffer s \<and> msg_n s' = msg_n s
              \<and> pending_message s' = pending_message s
              \<and> next_waiting_producer_id s' = next_waiting_producer_id s \<and> \<not> closed s'"
    by (intro send_busy_slot) simp_all
next
  assume "\<not> closed s \<and> next_waiting_producer_id s = int p \<and> 0 < n_producers_waiting s
            \<and> shape_invariant s"
  with assms(2)
  show "\<exists>s'. mpsc_producer_send_resume s p data k [Ev_Lock]
                 = Inr (Send_Return True, s', [Ev_Lock, Ev_Signal Main_CV, Ev_Unlock])
              \<and> deposited s' [Ev_Lock, Ev_Signal Main_CV, Ev_Unlock] data k
              \<and> wait_queue s' = tl (wait_queue s)
              \<and> next_waiting_producer_id s' = - 1 \<and> \<not> closed s'"
    by (intro resume_elected) simp_all
next
  assume "\<not> closed s \<and> next_waiting_producer_id s \<noteq> int p"
  then show "mpsc_producer_send_resume s p data k [Ev_Lock]
               = Inr (Send_Wait p, s, [Ev_Lock, Ev_Wait (Producer_CV p)])"
    by (intro resume_not_elected) simp_all
qed

theorem send_return_value_witness:
  "map_option (chan \<circ> fst) (exec (initial_system example_channel) (take 7 example_run))
     = Some example_elected
   \<and> map_option (chan \<circ> fst)
        (exec (initial_system example_channel) (take 7 example_run @ [Act_Close]))
       = Some example_closed_elected
   \<and> 1 \<le> buffer_size example_elected \<and> 1 \<le> length [3 :: byte]
   \<and> \<not> closed example_elected \<and> next_waiting_producer_id example_elected = int 1
   \<and> 0 < n_producers_waiting example_elected \<and> shape_invariant example_elected
   \<and> wait_queue example_elected = [1, 2]
   \<and> (\<exists>s'. mpsc_producer_send_resume example_elected 1 [3] 1 [Ev_Lock]
               = Inr (Send_Return True, s', [Ev_Lock, Ev_Signal Main_CV, Ev_Unlock])
            \<and> deposited s' [Ev_Lock, Ev_Signal Main_CV, Ev_Unlock] [3] 1
            \<and> wait_queue s' = [2] \<and> next_waiting_producer_id s' = - 1 \<and> \<not> closed s')
   \<and> mpsc_producer_send_resume example_elected 2 [3] 1 [Ev_Lock]
       = Inr (Send_Wait 2, example_elected, [Ev_Lock, Ev_Wait (Producer_CV 2)])
   \<and> (\<exists>s'. mpsc_producer_send example_elected 0 [3] 1
               = Inr (Send_Wait 0, s', [Ev_Lock, Ev_Wait (Producer_CV 0)])
            \<and> wait_queue s' = [1, 2, 0] \<and> buffer s' = [1, 2]
            \<and> \<not> pending_message s' \<and> next_waiting_producer_id s' = 1)
   \<and> closed example_closed_elected
   \<and> mpsc_producer_send_resume example_closed_elected 1 [3] 1 [Ev_Lock]
       = Inr (Send_Return False, example_closed_elected, [Ev_Lock, Ev_Unlock])
   \<and> mpsc_producer_send example_closed_elected 0 [3] 1
       = Inr (Send_Return False, example_closed_elected, [Ev_Lock, Ev_Unlock])
   \<and> \<not> closed example_full \<and> \<not> pending_message example_full
   \<and> next_waiting_producer_id example_full = - 1
   \<and> (\<exists>s'. mpsc_producer_send example_full 0 [3] 1
               = Inr (Send_Return True, s', [Ev_Lock, Ev_Signal Main_CV, Ev_Unlock])
            \<and> deposited s' [Ev_Lock, Ev_Signal Main_CV, Ev_Unlock] [3] 1
            \<and> wait_queue s' = [])"
proof -
  have r1: "map_option (chan \<circ> fst) (exec (initial_system example_channel) (take 7 example_run))
     = Some example_elected"
    by code_simp
  have r2: "map_option (chan \<circ> fst)
        (exec (initial_system example_channel) (take 7 example_run @ [Act_Close]))
       = Some example_closed_elected"
    by code_simp
  have d: "1 \<le> length [3 :: byte]" by simp
  have e: "1 \<le> buffer_size example_elected" "\<not> closed example_elected"
    "next_waiting_producer_id example_elected = int 1"
    "next_waiting_producer_id example_elected \<noteq> int 2"
    "next_waiting_producer_id example_elected \<noteq> int 0"
    "next_waiting_producer_id example_elected \<noteq> - 1"
    "0 < n_producers_waiting example_elected" "shape_invariant example_elected"
    "wait_queue example_elected = [1, 2]" "buffer example_elected = [1, 2]"
    "\<not> pending_message example_elected" "0 < n_max_producers example_elected"
    "n_producers_waiting example_elected < n_max_producers example_elected"
    by (simp_all add: example_elected_def example_full_def example_channel_def
          shape_invariant_def wait_queue_def)
  have c: "1 \<le> buffer_size example_closed_elected" "closed example_closed_elected"
    by (simp_all add: example_closed_elected_def example_elected_def example_full_def
          example_channel_def)
  have f: "1 \<le> buffer_size example_full" "\<not> closed example_full"
    "\<not> pending_message example_full" "next_waiting_producer_id example_full = - 1"
    "wait_queue example_full = []"
    by (simp_all add: example_full_def example_channel_def wait_queue_def)
  from send_return_value [OF e(1) d, of 1] e
  have w1: "\<exists>s'. mpsc_producer_send_resume example_elected 1 [3] 1 [Ev_Lock]
               = Inr (Send_Return True, s', [Ev_Lock, Ev_Signal Main_CV, Ev_Unlock])
            \<and> deposited s' [Ev_Lock, Ev_Signal Main_CV, Ev_Unlock] [3] 1
            \<and> wait_queue s' = [2] \<and> next_waiting_producer_id s' = - 1 \<and> \<not> closed s'"
    by auto
  from send_return_value [OF e(1) d, of 2] e
  have w2: "mpsc_producer_send_resume example_elected 2 [3] 1 [Ev_Lock]
       = Inr (Send_Wait 2, example_elected, [Ev_Lock, Ev_Wait (Producer_CV 2)])"
    by simp
  from send_return_value [OF e(1) d, of 0] e
  have w3: "\<exists>s'. mpsc_producer_send example_elected 0 [3] 1
               = Inr (Send_Wait 0, s', [Ev_Lock, Ev_Wait (Producer_CV 0)])
            \<and> wait_queue s' = [1, 2, 0] \<and> buffer s' = [1, 2]
            \<and> \<not> pending_message s' \<and> next_waiting_producer_id s' = 1"
    by auto
  from send_return_value [OF c(1) d, of 1] c
  have w4: "mpsc_producer_send_resume example_closed_elected 1 [3] 1 [Ev_Lock]
       = Inr (Send_Return False, example_closed_elected, [Ev_Lock, Ev_Unlock])"
    by simp
  from send_return_value [OF c(1) d, of 0] c
  have w5: "mpsc_producer_send example_closed_elected 0 [3] 1
       = Inr (Send_Return False, example_closed_elected, [Ev_Lock, Ev_Unlock])"
    by simp
  from send_return_value [OF f(1) d, of 0] f
  have w6: "\<exists>s'. mpsc_producer_send example_full 0 [3] 1
               = Inr (Send_Return True, s', [Ev_Lock, Ev_Signal Main_CV, Ev_Unlock])
            \<and> deposited s' [Ev_Lock, Ev_Signal Main_CV, Ev_Unlock] [3] 1
            \<and> wait_queue s' = []"
    by auto
  from r1 r2 d e c f w1 w2 w3 w4 w5 w6 show ?thesis by (intro conjI)
qed

section \<open>First come, first served\<close>

text \<open>
  C2. Take a run of a channel in which producer \<open>a\<close> enters the wait queue (its
  \<^verbatim>\<open>mpsc_producer_send\<close> blocks), producer \<open>b\<close> enters it later, and later still \<open>b\<close> is
  elected by the consumer or deposits its message on being elected. Then between the
  entry of \<open>a\<close> and that moment the consumer elected \<open>a\<close>, and \<open>a\<close> deposited its
  message after that: the producers that wait are served in the order in which they
  arrived.
\<close>

theorem fifo_service:
  assumes create: "mpsc_create params env = (Create_Ok c, evs)"
    and run: "exec (initial_system c) acts
                = Some (s, t1 @ L_Send a (Send_Wait a) # t2 @ L_Send b (Send_Wait b) # t3 @ [l])"
    and last: "l = L_Wake b (Send_Return True) \<or> elects l b"
  shows "\<exists>u le v w. t2 @ t3 = u @ le # v @ L_Wake a (Send_Return True) # w \<and> elects le a"
proof -
  from exec_append_labels [OF run] obtain s1 as1 as1' where
    r1: "exec (initial_system c) as1 = Some (s1, t1)"
    and r1': "exec s1 as1' = Some (s, L_Send a (Send_Wait a) # t2 @ L_Send b (Send_Wait b) # t3 @ [l])"
    by blast
  from exec_cons_label [OF r1'] obtain act_a as2 s2 where
    ea: "sys_step s1 act_a = Some (s2, L_Send a (Send_Wait a))"
    and r2: "exec s2 as2 = Some (s, t2 @ L_Send b (Send_Wait b) # t3 @ [l])"
    by blast
  from exec_append_labels [OF r2] obtain s3 as3 as3' where
    r3: "exec s2 as3 = Some (s3, t2)"
    and r3': "exec s3 as3' = Some (s, L_Send b (Send_Wait b) # t3 @ [l])"
    by blast
  from exec_cons_label [OF r3'] obtain act_b as4 s4 where
    eb: "sys_step s3 act_b = Some (s4, L_Send b (Send_Wait b))"
    and r4: "exec s4 as4 = Some (s, t3 @ [l])"
    by blast
  from exec_append_labels [OF r4] obtain s5 as5 as5' where
    r5: "exec s4 as5 = Some (s5, t3)" and r5': "exec s5 as5' = Some (s, [l])"
    by blast
  from exec_last_label [OF r5'] obtain act_l where el: "sys_step s5 act_l = Some (s, l)"
    by blast
  have i1: "system_invariant s1" using system_exec [OF system_initial [OF create] r1] .
  have i2: "system_invariant s2" using system_sys_step [OF ea i1] .
  have i3: "system_invariant s3" using system_exec [OF i2 r3] .
  have i4: "system_invariant s4" using system_sys_step [OF eb i3] .
  have i5: "system_invariant s5" using system_exec [OF i4 r5] .
  have p2: "phase_invariant a 0 s2"
    using i1 ea
  proof (cases rule: step_summary)
    case quiet
    from quiet(5) [of a] show ?thesis by simp
  next
    case (enqueue p)
    then show ?thesis by (simp add: phase_invariant_def)
  qed simp_all
  let ?ph = "served a 0 t2"
  have p3: "phase_invariant a ?ph s3" using phase_exec [OF i2 p2 r3] .
  from phase_sys_step [OF i3 eb p3] have p4: "phase_invariant a ?ph s4"
    by (simp add: phase_step_def)
  have o4: "?ph < 2 \<longrightarrow> precedes a b (wait_queue (chan s4))"
  proof
    assume "?ph < 2"
    with p3 have m: "a \<in> set (wait_queue (chan s3))" by (simp add: phase_invariant_def)
    from i3 eb show "precedes a b (wait_queue (chan s4))"
    proof (cases rule: step_summary)
      case quiet
      from quiet(5) [of b] show ?thesis by simp
    next
      case (enqueue p)
      with m show ?thesis by (simp add: member_precedes_snoc)
    qed simp_all
  qed
  from overtaking_exec [OF i4 p4 o4 r5]
  have o5: "served a ?ph t3 < 2 \<longrightarrow> precedes a b (wait_queue (chan s5))" .
  have "\<not> served a ?ph t3 < 2"
  proof
    assume "served a ?ph t3 < 2"
    with o5 have "precedes a b (wait_queue (chan s5))" by simp
    from precedes_sys_step [OF i5 el this] last show False by simp
  qed
  moreover from phase_exec [OF i4 p4 r5] have "phase_invariant a (served a ?ph t3) s5" .
  moreover have "served a ?ph t3 \<le> 2" by (simp add: served_bound)
  ultimately have "served a 0 (t2 @ t3) = 2" by (simp add: served_append)
  from served_from_zero [OF this] show ?thesis .
qed

theorem fifo_service_witness:
  "mpsc_create example_params example_env = (Create_Ok example_channel, example_create_events)
   \<and> map_option snd (exec (initial_system example_channel) example_run)
       = Some ([L_Register MPSC_REGISTER_PRODUCER_ERROR_NONE,
                L_Register MPSC_REGISTER_PRODUCER_ERROR_NONE,
                L_Register MPSC_REGISTER_PRODUCER_ERROR_NONE,
                L_Send 0 (Send_Return True)]
               @ L_Send 1 (Send_Wait 1) # [] @ L_Send 2 (Send_Wait 2)
               # [L_Consume Consumer_Continue
                    [Ev_Lock, Ev_Malloc 1, Ev_Signal (Producer_CV 1), Ev_Unlock,
                     Ev_Callback (Some [1, 2]) 2 False],
                  L_Wake 1 (Send_Return True),
                  L_Consume Consumer_Continue
                    [Ev_Lock, Ev_Malloc 2, Ev_Signal (Producer_CV 2), Ev_Unlock,
                     Ev_Callback (Some [3]) 1 False]]
               @ [L_Wake 2 (Send_Return True)])
   \<and> (\<exists>u le v w.
         [] @ [L_Consume Consumer_Continue
                 [Ev_Lock, Ev_Malloc 1, Ev_Signal (Producer_CV 1), Ev_Unlock,
                  Ev_Callback (Some [1, 2]) 2 False],
               L_Wake 1 (Send_Return True),
               L_Consume Consumer_Continue
                 [Ev_Lock, Ev_Malloc 2, Ev_Signal (Producer_CV 2), Ev_Unlock,
                  Ev_Callback (Some [3]) 1 False]]
           = u @ le # v @ L_Wake 1 (Send_Return True) # w
         \<and> elects le 1)"
proof -
  let ?t1 = "[L_Register MPSC_REGISTER_PRODUCER_ERROR_NONE,
              L_Register MPSC_REGISTER_PRODUCER_ERROR_NONE,
              L_Register MPSC_REGISTER_PRODUCER_ERROR_NONE,
              L_Send 0 (Send_Return True)]"
  let ?t3 = "[L_Consume Consumer_Continue
                 [Ev_Lock, Ev_Malloc 1, Ev_Signal (Producer_CV 1), Ev_Unlock,
                  Ev_Callback (Some [1, 2]) 2 False],
               L_Wake 1 (Send_Return True),
               L_Consume Consumer_Continue
                 [Ev_Lock, Ev_Malloc 2, Ev_Signal (Producer_CV 2), Ev_Unlock,
                  Ev_Callback (Some [3]) 1 False]]"
  have l: "example_labels
             = ?t1 @ L_Send 1 (Send_Wait 1) # [] @ L_Send 2 (Send_Wait 2) # ?t3
                 @ [L_Wake 2 (Send_Return True)]"
    by (simp add: example_labels_def)
  from example_exec obtain s where
    "exec (initial_system example_channel) example_run = Some (s, example_labels)"
    by (cases "exec (initial_system example_channel) example_run") auto
  with l have run: "exec (initial_system example_channel) example_run
      = Some (s, ?t1 @ L_Send 1 (Send_Wait 1) # [] @ L_Send 2 (Send_Wait 2) # ?t3
                 @ [L_Wake 2 (Send_Return True)])"
    by simp
  have "L_Wake 2 (Send_Return True) = L_Wake 2 (Send_Return True)
          \<or> elects (L_Wake 2 (Send_Return True)) 2" by simp
  from fifo_service [OF example_create run this] example_create example_exec l
  show ?thesis by simp
qed

section \<open>Closing with a message in the slot\<close>

lemma memcpy_fresh: "memcpy (replicate k 0) src k = take k src"
  by (simp add: memcpy_def)

lemma consumer_deliver_events:
  "\<exists>s' evs'. consumer_deliver s buf k evs = Inr (Consumer_Continue, s', evs')
      \<and> Ev_Callback buf k False \<in> set evs' \<and> \<not> pending_message s' \<and> closed s' = closed s
      \<and> (\<forall>d j. Ev_Callback d j True \<in> set evs' \<longrightarrow> Ev_Callback d j True \<in> set evs)"
  by (simp add: consumer_deliver_def Let_def)

text \<open>
  C3, as the specification states it, fails: the consumer callback handles a first
  message while the producer deposits a second one, of one byte, and then closes the
  channel; the allocation of the delivery buffer fails with \<^verbatim>\<open>ENOMEM\<close> under the
  report policy, and the next pass of the consumer loop drops the second message and
  calls the error callback; the pass after it makes the last call, so that message is
  never delivered.
\<close>

theorem pending_message_dropped_counterexample:
  "mpsc_create example_params example_env = (Create_Ok example_channel, example_create_events)
   \<and> map_option (chan \<circ> fst)
         (exec (initial_system example_channel)
            [Act_Register None 5 6, Act_Send 0 [1] 1, Act_Consume (Malloc_Ptr 1),
             Act_Send 0 [2] 1, Act_Close])
       = Some example_closed_pending
   \<and> closed example_closed_pending \<and> pending_message example_closed_pending
   \<and> map_option snd
         (exec (initial_system example_channel)
            [Act_Register None 5 6, Act_Send 0 [1] 1, Act_Consume (Malloc_Ptr 1),
             Act_Send 0 [2] 1, Act_Close,
             Act_Consume (Malloc_Null ENOMEM), Act_Consume (Malloc_Ptr 2)])
       = Some [L_Register MPSC_REGISTER_PRODUCER_ERROR_NONE, L_Send 0 (Send_Return True),
               L_Consume Consumer_Continue
                 [Ev_Lock, Ev_Malloc 1, Ev_Unlock, Ev_Callback (Some [1]) 1 False],
               L_Send 0 (Send_Return True), L_Close,
               L_Consume Consumer_Continue [Ev_Lock, Ev_Unlock, Ev_Error_Callback],
               L_Consume Consumer_Exit [Ev_Lock, Ev_Unlock, Ev_Callback None 0 True]]"
  by (intro conjI; code_simp)

text \<open>
  C3, amended. When the channel is closed while a message is pending, and the message
  is empty or the allocation of its delivery buffer succeeds, the next pass of the
  consumer loop calls the callback with a copy of the message and \<open>closed = false\<close>,
  makes no call with \<open>closed = true\<close>, and leaves the channel closed with an empty slot;
  from that state every pass of the loop is the last one: it calls the callback with
  \<open>closed = true\<close> and the thread returns.
\<close>

theorem pending_message_delivered_before_terminal:
  assumes "closed s" and "pending_message s" and "msg_n s = 0 \<or> m = Malloc_Ptr a"
  shows "\<exists>s' evs. my_consumer_thread_callback s m = Inr (Consumer_Continue, s', evs)
          \<and> Ev_Callback (if msg_n s = 0 then None else Some (take (msg_n s) (buffer s)))
               (msg_n s) False \<in> set evs
          \<and> (\<forall>d j. Ev_Callback d j True \<notin> set evs)
          \<and> closed s' \<and> \<not> pending_message s'
          \<and> (\<forall>m'. my_consumer_thread_callback s' m'
                 = Inr (Consumer_Exit, s', [Ev_Lock, Ev_Unlock, Ev_Callback None 0 True]))"
proof (cases "msg_n s = 0")
  case True
  from consumer_deliver_events [of s None 0 "[Ev_Lock]"] obtain s' evs' where
    d: "consumer_deliver s None 0 [Ev_Lock] = Inr (Consumer_Continue, s', evs')"
      "Ev_Callback None 0 False \<in> set evs'" "\<not> pending_message s'" "closed s' = closed s"
      "\<forall>d j. Ev_Callback d j True \<in> set evs' \<longrightarrow> Ev_Callback d j True \<in> set [Ev_Lock]"
    by blast
  have "my_consumer_thread_callback s m = consumer_deliver s None 0 [Ev_Lock]"
    using assms True by (simp add: my_consumer_thread_callback_def)
  with d assms True show ?thesis
    by (auto simp: my_consumer_thread_callback_def)
next
  case False
  with assms have m: "m = Malloc_Ptr a" by simp
  let ?b = "Some (take (msg_n s) (buffer s))"
  from consumer_deliver_events [of s ?b "msg_n s" "[Ev_Lock, Ev_Malloc a]"] obtain s' evs' where
    d: "consumer_deliver s ?b (msg_n s) [Ev_Lock, Ev_Malloc a] = Inr (Consumer_Continue, s', evs')"
      "Ev_Callback ?b (msg_n s) False \<in> set evs'" "\<not> pending_message s'" "closed s' = closed s"
      "\<forall>d j. Ev_Callback d j True \<in> set evs'
          \<longrightarrow> Ev_Callback d j True \<in> set [Ev_Lock, Ev_Malloc a]"
    by blast
  have "my_consumer_thread_callback s m = consumer_deliver s ?b (msg_n s) [Ev_Lock, Ev_Malloc a]"
    using assms False m
    by (simp add: my_consumer_thread_callback_def my_malloc_def memcpy_fresh Let_def)
  with d assms False show ?thesis
    by (auto simp: my_consumer_thread_callback_def)
qed

theorem pending_message_delivered_before_terminal_witness:
  "closed example_closed_pending \<and> pending_message example_closed_pending
   \<and> (msg_n example_closed_pending = 0 \<or> Malloc_Ptr 1 = Malloc_Ptr 1)
   \<and> (\<exists>s' evs. my_consumer_thread_callback example_closed_pending (Malloc_Ptr 1)
                   = Inr (Consumer_Continue, s', evs)
          \<and> Ev_Callback (Some [2]) 1 False \<in> set evs
          \<and> closed s' \<and> \<not> pending_message s'
          \<and> my_consumer_thread_callback s' (Malloc_Ptr 2)
                 = Inr (Consumer_Exit, s', [Ev_Lock, Ev_Unlock, Ev_Callback None 0 True]))"
proof -
  have h1: "closed example_closed_pending" by code_simp
  have h2: "pending_message example_closed_pending" by code_simp
  have h3: "msg_n example_closed_pending = 0 \<or> Malloc_Ptr 1 = Malloc_Ptr 1" by simp
  from pending_message_delivered_before_terminal [OF h1 h2 h3] obtain s' evs where
    r: "my_consumer_thread_callback example_closed_pending (Malloc_Ptr 1)
          = Inr (Consumer_Continue, s', evs)"
    and cb: "Ev_Callback (if msg_n example_closed_pending = 0 then None
                else Some (take (msg_n example_closed_pending) (buffer example_closed_pending)))
               (msg_n example_closed_pending) False \<in> set evs"
    and st: "closed s'" "\<not> pending_message s'"
    and ex: "\<forall>m'. my_consumer_thread_callback s' m'
                 = Inr (Consumer_Exit, s', [Ev_Lock, Ev_Unlock, Ev_Callback None 0 True])"
    by blast
  have v: "msg_n example_closed_pending = 1"
    "take (Suc 0) (buffer example_closed_pending) = [2]"
    by code_simp+
  from cb have "Ev_Callback (Some [2]) 1 False \<in> set evs" by (simp add: v)
  with r st ex h1 h2 h3 show ?thesis by blast
qed

section \<open>Registration after joining\<close>

text \<open>
  C4, as the specification states it, fails: one producer is registered, the creating
  thread enters \<^verbatim>\<open>mpsc_join\<close> while that producer still runs, so \<open>joined\<close> is set
  and the channel stays open, and a further registration (by the producer or by the
  consumer callback) is accepted.
\<close>

theorem registration_after_join_counterexample:
  "mpsc_create example_params example_env = (Create_Ok example_channel, example_create_events)
   \<and> map_option (chan \<circ> fst)
         (exec (initial_system example_channel) [Act_Register None 5 6, Act_Join_Enter 7])
       = Some example_joined
   \<and> joined example_joined
   \<and> mpsc_producer_register_producer example_joined None 5 6
       = Inr (MPSC_REGISTER_PRODUCER_ERROR_NONE,
              example_joined
                \<lparr>producers := [\<lparr>application_context = 6, done_flag = False, callback = 5\<rparr>,
                               \<lparr>application_context = 6, done_flag = False, callback = 5\<rparr>,
                               \<lparr>application_context = 0, done_flag = True, callback = 0\<rparr>],
                 producer_count := 2\<rparr>,
              [Ev_Lock, Ev_Thread_Create, Ev_Unlock])
   \<and> map_option snd
         (exec (initial_system example_channel)
            [Act_Register None 5 6, Act_Join_Enter 7, Act_Register None 5 6])
       = Some [L_Register MPSC_REGISTER_PRODUCER_ERROR_NONE, L_Join_Enter,
               L_Register MPSC_REGISTER_PRODUCER_ERROR_NONE]"
  by (intro conjI; code_simp)

text \<open>
  C4, amended. In a channel with \<open>joined = true\<close>, a call of
  \<^verbatim>\<open>mpsc_register_producer\<close> or of one of its two aliases succeeds exactly when the
  channel is not closed, \<open>producer_count\<close> is not \<open>n_max_producers\<close> and the thread of the
  new producer is created: after \<^verbatim>\<open>mpsc_join\<close> has been entered registration is refused
  once the channel is closed or full, not before.
\<close>

theorem registration_after_join:
  assumes "joined s"
  shows "((\<exists>s' evs. mpsc_register_producer s rc cb context
                      = Inr (MPSC_REGISTER_PRODUCER_ERROR_NONE, s', evs))
            \<longleftrightarrow> \<not> closed s \<and> producer_count s \<noteq> n_max_producers s \<and> rc = None)
       \<and> mpsc_consumer_register_producer s rc cb context = mpsc_register_producer s rc cb context
       \<and> mpsc_producer_register_producer s rc cb context = mpsc_register_producer s rc cb context"
  by (cases rc)
     (auto simp: mpsc_register_producer_def mpsc_consumer_register_producer_def
        mpsc_producer_register_producer_def my_thread_create_def Let_def)

theorem registration_after_join_witness:
  "joined (example_joined\<lparr>closed := True\<rparr>)
   \<and> closed (example_joined\<lparr>closed := True\<rparr>)
   \<and> \<not> (\<exists>s' evs. mpsc_register_producer (example_joined\<lparr>closed := True\<rparr>) None 5 6
                     = Inr (MPSC_REGISTER_PRODUCER_ERROR_NONE, s', evs))"
proof -
  have h: "joined (example_joined\<lparr>closed := True\<rparr>)" by code_simp
  have c: "closed (example_joined\<lparr>closed := True\<rparr>)" by code_simp
  from registration_after_join [OF h, of None 5 6] h c show ?thesis by blast
qed

section \<open>A construction that fails part-way\<close>

text \<open>
  When the allocation of the struct itself is reported as failed, the failure handler
  is called with a null \<^verbatim>\<open>self\<close> and reads \<^verbatim>\<open>self->producer_condition_variables\<close>
  (line 505) before the test of line 525. When a later allocation fails, the handler
  tests pointer fields of the struct that have not been assigned yet: here the
  allocation of the thread handles fails, and the handler frees the addresses 13, 14
  and 12 that the fresh memory happened to hold.
\<close>

lemma create_struct_allocation_fails:
  assumes "mpsc_create_params_validate params = None"
    and "params_error_handling_enabled params"
    and "env_malloc_self env (env_sizeof_mpsc_t env) = Malloc_Null ENOMEM"
  shows "mpsc_create params env = (Create_Null_Deref, [])"
  using assms
  by (simp add: mpsc_create_def my_malloc_def create_failure_def
      mpsc_handle_creation_failure_def)

lemma create_later_allocation_fails:
  "mpsc_create example_params
     (example_env\<lparr>env_malloc_producer_thread_ids := (\<lambda>size. Malloc_Null ENOMEM)\<rparr>)
     = (Create_Null ENOMEM,
        [Ev_Malloc 100, Ev_Malloc 200, Ev_Free 13, Ev_Free 14, Ev_Free 12, Ev_Free 200,
         Ev_Free 100])"
  by code_simp

text \<open>
  When the product \<^verbatim>\<open>sizeof(pthread_cond_t) * n_max_producers\<close> wraps in \<^verbatim>\<open>size_t\<close>,
  the array of condition variables has fewer than \<^verbatim>\<open>n_max_producers\<close> cells; if the
  allocations and the initialisations of the cells it has succeed, the loop of lines
  165 to 171 goes on to the first cell past its end. With 64 bits, 48 bytes for a
  condition variable and \<open>2 ^ 61\<close> producers the product is 0 and the array has no
  cell.
\<close>

lemma create_condition_variables_out_of_bounds:
  assumes "mpsc_create_params_validate params = None"
    and "env_malloc_self env (env_sizeof_mpsc_t env) = Malloc_Ptr a"
    and "env_malloc_buffer env (params_buffer_size params) = Malloc_Ptr b"
    and "env_malloc_producer_thread_ids env
           (size_mul env (env_sizeof_pthread_t env) (params_n_max_producers params))
           = Malloc_Ptr t"
    and "env_malloc_producers env
           (size_mul env (env_sizeof_mpsc_producer_t env) (params_n_max_producers params))
           = Malloc_Ptr p"
    and "env_malloc_producer_condition_variables env
           (size_mul env (env_sizeof_pthread_cond_t env) (params_n_max_producers params))
           = Malloc_Ptr c"
    and "env_malloc_producer_waiting_ids_queue env
           (size_mul env (env_sizeof_size_t env) (params_n_max_producers params))
           = Malloc_Ptr q"
    and "env_cond_init_main env = None"
    and "\<forall>j < array_cells env (env_sizeof_pthread_cond_t env) (params_n_max_producers params).
           env_cond_init_producer env j = None"
    and "array_cells env (env_sizeof_pthread_cond_t env) (params_n_max_producers params)
           < params_n_max_producers params"
  shows "fst (mpsc_create params env) = Create_Out_Of_Bounds"
proof -
  let ?cells = "array_cells env (env_sizeof_pthread_cond_t env) (params_n_max_producers params)"
  have "cond_init_loop (env_cond_init_producer env) h e ?cells 0 (params_n_max_producers params)
          = Init_Out_Of_Bounds ?cells" for h e
    using assms(9,10) by (intro cond_init_loop_out_of_bounds) simp_all
  with assms(8) show ?thesis
    unfolding create_allocations [OF assms(1-7)]
    by (simp add: create_sync_def my_condition_variable_init_def fresh_struct_def)
qed

lemma create_capacity_wraps:
  "array_cells example_env (env_sizeof_pthread_cond_t example_env) (2 ^ 61) = 0
   \<and> fst (mpsc_create (example_params\<lparr>params_n_max_producers := 2 ^ 61\<rparr>) example_env)
       = Create_Out_Of_Bounds"
proof -
  let ?params = "example_params\<lparr>params_n_max_producers := 2 ^ 61\<rparr>"
  have n: "params_n_max_producers ?params = 2 ^ 61" by simp
  have c: "array_cells example_env (env_sizeof_pthread_cond_t example_env) (2 ^ 61) = 0"
    by (simp add: array_cells_def size_mul_def example_env_def)
  have v: "mpsc_create_params_validate ?params = None"
    by (simp add: example_params_def mpsc_create_params_validate_def)
  have m: "env_malloc_self example_env (env_sizeof_mpsc_t example_env) = Malloc_Ptr 100"
    "env_malloc_buffer example_env (params_buffer_size ?params) = Malloc_Ptr 200"
    "env_malloc_producer_thread_ids example_env
       (size_mul example_env (env_sizeof_pthread_t example_env)
          (params_n_max_producers ?params)) = Malloc_Ptr 300"
    "env_malloc_producers example_env
       (size_mul example_env (env_sizeof_mpsc_producer_t example_env)
          (params_n_max_producers ?params)) = Malloc_Ptr 400"
    "env_malloc_producer_condition_variables example_env
       (size_mul example_env (env_sizeof_pthread_cond_t example_env)
          (params_n_max_producers ?params)) = Malloc_Ptr 500"
    "env_malloc_producer_waiting_ids_queue example_env
       (size_mul example_env (env_sizeof_size_t example_env)
          (params_n_max_producers ?params)) = Malloc_Ptr 600"
    "env_cond_init_main example_env = None"
    by (simp_all add: example_env_def)
  have b: "\<forall>j < array_cells example_env (env_sizeof_pthread_cond_t example_env)
                  (params_n_max_producers ?params).
             env_cond_init_producer example_env j = None"
    unfolding n c by simp
  have l: "array_cells example_env (env_sizeof_pthread_cond_t example_env)
             (params_n_max_producers ?params) < params_n_max_producers ?params"
    unfolding n c by simp
  from create_condition_variables_out_of_bounds [OF v m b l] c show ?thesis by simp
qed




section \<open>An allocation failure in the consumer loop\<close>

text \<open>
  C6. Under the report policy, in a pass of the consumer loop that finds a pending
  message of \<open>n > 0\<close> bytes and whose \<^verbatim>\<open>malloc\<close> fails (it returns \<^verbatim>\<open>NULL\<close> and, as
  POSIX has it, sets \<^verbatim>\<open>errno\<close> to \<^verbatim>\<open>ENOMEM\<close>), the message is dropped
  (\<^verbatim>\<open>pending_message\<close> is cleared, \<^verbatim>\<open>n\<close> is 0), the mutex is released before the
  error callback is called, \<open>closed\<close> is left as it is, and the loop goes round again.
\<close>

theorem consumer_allocation_failure:
  assumes "error_handling_enabled s" and "pending_message s" and "msg_n s > 0"
  shows "my_consumer_thread_callback s (Malloc_Null ENOMEM)
           = Inr (Consumer_Continue, s\<lparr>msg_n := 0, pending_message := False\<rparr>,
                  [Ev_Lock, Ev_Unlock, Ev_Error_Callback])
         \<and> closed (s\<lparr>msg_n := 0, pending_message := False\<rparr>) = closed s
         \<and> [Ev_Lock, Ev_Unlock, Ev_Error_Callback] ! 2 = Ev_Error_Callback
         \<and> \<not> lock_held_at [Ev_Lock, Ev_Unlock, Ev_Error_Callback] 2"
  using assms by (simp add: my_consumer_thread_callback_def my_malloc_def lock_held_at_def)

theorem consumer_allocation_failure_witness:
  "error_handling_enabled example_pending \<and> pending_message example_pending
   \<and> msg_n example_pending > 0
   \<and> my_consumer_thread_callback example_pending (Malloc_Null ENOMEM)
       = Inr (Consumer_Continue, example_pending\<lparr>msg_n := 0, pending_message := False\<rparr>,
              [Ev_Lock, Ev_Unlock, Ev_Error_Callback])
   \<and> \<not> closed (example_pending\<lparr>msg_n := 0, pending_message := False\<rparr>)"
proof -
  have h1: "error_handling_enabled example_pending" by code_simp
  have h2: "pending_message example_pending" by code_simp
  have h3: "msg_n example_pending > 0" by code_simp
  have c: "\<not> closed example_pending" by code_simp
  from consumer_allocation_failure [OF h1 h2 h3] h1 h2 h3 c show ?thesis by simp
qed

section \<open>A message larger than the slot\<close>

text \<open>
  C7. \<^verbatim>\<open>mpsc_producer_send\<close> aborts for the size of the message exactly when
  \<open>k > buffer_size\<close>, whatever the error policy of the channel; the critical sections
  that follow a wait never abort for that reason.
\<close>

theorem send_size_abort:
  "(mpsc_producer_send (s\<lparr>error_handling_enabled := h\<rparr>) p data k = Inl Fatal_Send_Size
      \<longleftrightarrow> buffer_size s < k)
   \<and> mpsc_producer_send_resume s i data k evs \<noteq> Inl Fatal_Send_Size"
  by (auto simp: mpsc_producer_send_def mpsc_producer_send_resume_def send_deposit_def
        mpsc_producer_subscribe_to_wait_queue_def mpsc_shift_producer_wait_queue_def
      split: if_splits sum.splits option.splits)

theorem send_size_abort_witness:
  "buffer_size example_channel < 3
   \<and> mpsc_producer_send (example_channel\<lparr>error_handling_enabled := True\<rparr>) 0 [1, 2, 3] 3
       = Inl Fatal_Send_Size
   \<and> mpsc_producer_send (example_channel\<lparr>error_handling_enabled := False\<rparr>) 0 [1, 2, 3] 3
       = Inl Fatal_Send_Size
   \<and> \<not> buffer_size example_channel < 2
   \<and> mpsc_producer_send (example_channel\<lparr>error_handling_enabled := True\<rparr>) 0 [1, 2] 2
       \<noteq> Inl Fatal_Send_Size"
proof -
  have h: "buffer_size example_channel < 3" "\<not> buffer_size example_channel < 2" by code_simp+
  from send_size_abort [where s = example_channel and h = True and p = 0
        and data = "[1, 2, 3]" and k = 3]
    send_size_abort [where s = example_channel and h = False and p = 0
        and data = "[1, 2, 3]" and k = 3]
    send_size_abort [where s = example_channel and h = True and p = 0
        and data = "[1, 2]" and k = 2] h
  show ?thesis by blast
qed

section \<open>The elected producer is the head of the wait queue\<close>

text \<open>
  C8. In every state that a channel reaches from its construction,
  \<^verbatim>\<open>next_waiting_producer_id\<close> is \<open>-1\<close>, or the wait queue is not empty and
  \<^verbatim>\<open>next_waiting_producer_id\<close> is its first cell; and every critical section keeps this
  so, from any state in which it holds.
\<close>

theorem handoff_is_head_of_queue:
  assumes "mpsc_create params env = (Create_Ok c, evs)"
    and "exec (initial_system c) acts = Some (s, ls)"
  shows "handoff_invariant (chan s)
       \<and> (next_waiting_producer_id (chan s) = - 1
          \<or> (wait_queue (chan s) \<noteq> []
             \<and> next_waiting_producer_id (chan s) = int (hd (wait_queue (chan s)))))
       \<and> (\<forall>s0 act s1 l. handoff_invariant (chan s0) \<and> sys_step s0 act = Some (s1, l)
             \<longrightarrow> handoff_invariant (chan s1))"
proof -
  from system_exec [OF system_initial [OF assms(1)] assms(2)]
  have ho: "handoff_invariant (chan s)" and sh: "shape_invariant (chan s)"
    by (simp_all add: system_invariant_def)
  have "next_waiting_producer_id (chan s) = - 1
          \<or> (wait_queue (chan s) \<noteq> []
             \<and> next_waiting_producer_id (chan s) = int (hd (wait_queue (chan s))))"
  proof (cases "next_waiting_producer_id (chan s) = - 1")
    case True
    then show ?thesis by simp
  next
    case False
    with ho have "next_waiting_producer_id (chan s)
                    = int (producer_waiting_ids_queue (chan s) ! 0)"
      by (simp add: handoff_invariant_def)
    from handoff_head [OF ho sh this] this show ?thesis by simp
  qed
  with ho handoff_sys_step show ?thesis by blast
qed

theorem handoff_is_head_of_queue_witness:
  "mpsc_create example_params example_env = (Create_Ok example_channel, example_create_events)
   \<and> map_option (next_waiting_producer_id \<circ> chan \<circ> fst)
        (exec (initial_system example_channel) (take 7 example_run)) = Some 1
   \<and> map_option (handoff_invariant \<circ> chan \<circ> fst)
        (exec (initial_system example_channel) (take 7 example_run)) = Some True"
proof -
  have e: "map_option (next_waiting_producer_id \<circ> chan \<circ> fst)
        (exec (initial_system example_channel) (take 7 example_run)) = Some 1"
    by code_simp
  then obtain s ls where
    x: "exec (initial_system example_channel) (take 7 example_run) = Some (s, ls)"
    by (cases "exec (initial_system example_channel) (take 7 example_run)") auto
  from handoff_is_head_of_queue [OF example_create x] have "handoff_invariant (chan s)"
    by blast
  with x e example_create show ?thesis by simp
qed

section \<open>Registration: capacity before closure\<close>

text \<open>
  C9. When \<open>producer_count = n_max_producers\<close>, \<^verbatim>\<open>mpsc_register_producer\<close> returns
  \<^verbatim>\<open>MPSC_REGISTER_PRODUCER_ERROR_N_MAX_PRODUCERS_REACHED\<close> and leaves the channel as it
  is, whatever the flag \<open>closed\<close> holds: the capacity test comes first, so a full and
  closed channel reports that it is full, and on a full channel the flag is not read.
\<close>

theorem register_full_before_closed:
  assumes "producer_count s = n_max_producers s"
  shows "mpsc_register_producer (s\<lparr>closed := c\<rparr>) rc cb context
           = Inr (MPSC_REGISTER_PRODUCER_ERROR_N_MAX_PRODUCERS_REACHED, s\<lparr>closed := c\<rparr>,
                  [Ev_Lock, Ev_Unlock])"
  using assms by (simp add: mpsc_register_producer_def)

theorem register_full_before_closed_witness:
  "producer_count example_full = n_max_producers example_full
   \<and> mpsc_register_producer (example_full\<lparr>closed := True\<rparr>) None 5 6
       = Inr (MPSC_REGISTER_PRODUCER_ERROR_N_MAX_PRODUCERS_REACHED,
              example_full\<lparr>closed := True\<rparr>, [Ev_Lock, Ev_Unlock])
   \<and> mpsc_register_producer (example_full\<lparr>closed := False\<rparr>) None 5 6
       = Inr (MPSC_REGISTER_PRODUCER_ERROR_N_MAX_PRODUCERS_REACHED,
              example_full\<lparr>closed := False\<rparr>, [Ev_Lock, Ev_Unlock])"
proof -
  have h: "producer_count example_full = n_max_producers example_full" by code_simp
  from register_full_before_closed [OF h, of True None 5 6]
    register_full_before_closed [OF h, of False None 5 6] h
  show ?thesis by simp
qed

section \<open>Marking a producer as done\<close>

text \<open>
  C10. In every state that a channel reaches, for a registered producer \<open>p\<close>:
  running \<^verbatim>\<open>mpsc_producer_done\<close> a second time changes nothing and signals nothing;
  \<^verbatim>\<open>n_producers_closed\<close> grows by one exactly when the flag \<^verbatim>\<open>done\<close> of \<open>p\<close> was not
  set, and otherwise the channel is left as it is; and \<^verbatim>\<open>n_producers_closed\<close> is at
  most \<open>producer_count\<close>, before and after.
\<close>

theorem producer_done_idempotent:
  assumes "mpsc_create params env = (Create_Ok c, evs)"
    and "exec (initial_system c) acts = Some (s, ls)"
    and "p < producer_count (chan s)"
  shows "mpsc_producer_done (fst (mpsc_producer_done (chan s) p)) p
           = (fst (mpsc_producer_done (chan s) p), [Ev_Lock, Ev_Unlock])
       \<and> n_producers_closed (fst (mpsc_producer_done (chan s) p))
           = n_producers_closed (chan s) + (if done_flag (producers (chan s) ! p) then 0 else 1)
       \<and> (fst (mpsc_producer_done (chan s) p) = chan s \<longleftrightarrow> done_flag (producers (chan s) ! p))
       \<and> n_producers_closed (chan s) \<le> producer_count (chan s)
       \<and> n_producers_closed (fst (mpsc_producer_done (chan s) p))
           \<le> producer_count (fst (mpsc_producer_done (chan s) p))"
proof -
  from system_exec [OF system_initial [OF assms(1)] assms(2)]
  have sh: "shape_invariant (chan s)" and dn: "done_invariant (chan s)"
    by (simp_all add: system_invariant_def)
  from sh assms(3) have len: "p < length (producers (chan s))"
    and cnt: "producer_count (chan s) \<le> length (producers (chan s))"
    by (simp_all add: shape_invariant_def)
  have twice: "mpsc_producer_done (fst (mpsc_producer_done (chan s) p)) p
           = (fst (mpsc_producer_done (chan s) p), [Ev_Lock, Ev_Unlock])"
    using len by (simp add: mpsc_producer_done_def Let_def)
  have count: "n_producers_closed (fst (mpsc_producer_done (chan s) p))
           = n_producers_closed (chan s) + (if done_flag (producers (chan s) ! p) then 0 else 1)"
    by (simp add: mpsc_producer_done_def Let_def)
  have same: "fst (mpsc_producer_done (chan s) p) = chan s \<longleftrightarrow> done_flag (producers (chan s) ! p)"
  proof
    assume "fst (mpsc_producer_done (chan s) p) = chan s"
    with count show "done_flag (producers (chan s) ! p)" by (simp split: if_splits)
  next
    assume "done_flag (producers (chan s) ! p)"
    then show "fst (mpsc_producer_done (chan s) p) = chan s"
      by (simp add: mpsc_producer_done_def)
  qed
  have bound: "done_invariant x \<Longrightarrow> n_producers_closed x \<le> producer_count x" for x
  proof -
    assume "done_invariant x"
    then have "n_producers_closed x \<le> length (take (producer_count x) (producers x))"
      unfolding done_invariant_def by (simp only: length_filter_le)
    then show ?thesis by simp
  qed
  from bound [OF dn] bound [OF done_done [OF dn assms(3) cnt]] twice count same
  show ?thesis by blast
qed

theorem producer_done_idempotent_witness:
  "mpsc_create example_params example_env = (Create_Ok example_channel, example_create_events)
   \<and> exec (initial_system example_channel) [Act_Register None 5 6]
       = Some (\<lparr>chan = example_registered, threads = [PC_Task], consumer_exited = False\<rparr>,
               [L_Register MPSC_REGISTER_PRODUCER_ERROR_NONE])
   \<and> 0 < producer_count example_registered
   \<and> mpsc_producer_done (fst (mpsc_producer_done example_registered 0)) 0
       = (fst (mpsc_producer_done example_registered 0), [Ev_Lock, Ev_Unlock])
   \<and> n_producers_closed (fst (mpsc_producer_done example_registered 0)) = 1
   \<and> n_producers_closed (fst (mpsc_producer_done example_registered 0))
       \<le> producer_count (fst (mpsc_producer_done example_registered 0))"
proof -
  have h: "0 < producer_count
             (chan \<lparr>chan = example_registered, threads = [PC_Task], consumer_exited = False\<rparr>)"
    by code_simp
  have v: "n_producers_closed example_registered = 0"
    "\<not> done_flag (producers example_registered ! 0)" "0 < producer_count example_registered"
    by code_simp+
  from producer_done_idempotent [OF example_create example_registered_exec h]
    example_create example_registered_exec v
  show ?thesis by simp
qed

end
